theory Spec2Isabelle
  imports Main
begin

section \<open>Characters and strings as Python's \<open>str\<close> and \<open>re\<close> see them\<close>

text \<open>
  The program is \<^verbatim>\<open>qachatbot.py\<close>. Its texts are Python \<open>str\<close> values; here a text is a
  \<open>string\<close>, a list of 8-bit characters read as the code points 0 to 255. On that range
  the character classes below are the ones of CPython 3: \<open>str.isspace\<close> and the pattern
  \<^verbatim>\<open>\s\<close> agree, \<^verbatim>\<open>\d\<close> is the ASCII digits, \<^verbatim>\<open>\w\<close> (which decides \<^verbatim>\<open>\b\<close>) is
  \<open>str.isalnum\<close> or an underscore, and \<open>str.splitlines\<close> breaks at the characters of
  \<open>is_linebreak\<close>. Code points above 255 are outside the model.
\<close>

abbreviation NL :: char where "NL \<equiv> CHR 0x0A"
abbreviation CR :: char where "CR \<equiv> CHR 0x0D"

definition is_space :: "char \<Rightarrow> bool" where
  "is_space c = (c \<in> set [CHR 0x09, CHR 0x0A, CHR 0x0B, CHR 0x0C, CHR 0x0D, CHR 0x1C,
     CHR 0x1D, CHR 0x1E, CHR 0x1F, CHR 0x20, CHR 0x85, CHR 0xA0])"

definition is_digit :: "char \<Rightarrow> bool" where
  "is_digit c = (c \<in> set ''0123456789'')"

definition is_linebreak :: "char \<Rightarrow> bool" where
  "is_linebreak c = (c \<in> set [CHR 0x0A, CHR 0x0B, CHR 0x0C, CHR 0x0D, CHR 0x1C, CHR 0x1D,
     CHR 0x1E, CHR 0x85])"

definition is_word :: "char \<Rightarrow> bool" where
  "is_word c = (let n = (of_char c :: nat) in
     (48 \<le> n \<and> n \<le> 57) \<or> (65 \<le> n \<and> n \<le> 90) \<or> n = 95 \<or> (97 \<le> n \<and> n \<le> 122) \<or>
     n = 170 \<or> n = 178 \<or> n = 179 \<or> n = 181 \<or> n = 185 \<or> n = 186 \<or>
     (188 \<le> n \<and> n \<le> 190) \<or> (192 \<le> n \<and> n \<le> 214) \<or> (216 \<le> n \<and> n \<le> 246) \<or> 248 \<le> n)"

definition lower_char :: "char \<Rightarrow> char" where
  "lower_char c = (let n = (of_char c :: nat) in
     if (65 \<le> n \<and> n \<le> 90) \<or> (192 \<le> n \<and> n \<le> 222 \<and> n \<noteq> 215) then char_of (n + 32) else c)"

definition py_lower :: "string \<Rightarrow> string" where
  "py_lower s = map lower_char s"

text \<open>\<^verbatim>\<open>s.strip()\<close>: leading and trailing whitespace removed.\<close>

definition py_strip :: "string \<Rightarrow> string" where
  "py_strip s = rev (dropWhile is_space (rev (dropWhile is_space s)))"

text \<open>
  \<^verbatim>\<open>s.splitlines()\<close>: the lines of \<open>s\<close> without their line breaks; \<^verbatim>\<open>\r\n\<close> is one
  break, and a break at the very end opens no further line. \<open>cur\<close> is the line being read.
\<close>

fun splitlines_from :: "string \<Rightarrow> string \<Rightarrow> string list" where
  "splitlines_from cur [] = (if cur = [] then [] else [cur])"
| "splitlines_from cur (c # cs) =
     (if is_linebreak c then
        (case cs of
           [] \<Rightarrow> [cur]
         | d # ds \<Rightarrow> if c = CR \<and> d = NL then cur # splitlines_from [] ds
                    else cur # splitlines_from [] (d # ds))
      else splitlines_from (cur @ [c]) cs)"

definition splitlines :: "string \<Rightarrow> string list" where
  "splitlines s = splitlines_from [] s"

section \<open>The regular expressions of \<open>parse_mcqs\<close>\<close>

text \<open>
  Each pattern of the source is a function that returns what \<open>re\<close> returns for it. The
  patterns are deterministic enough that backtracking never finds a second way to match:
  a greedy \<^verbatim>\<open>\d+\<close>, \<^verbatim>\<open>\s+\<close> or \<^verbatim>\<open>\s*\<close> is followed by something no digit (no whitespace)
  can match, so the longest run is the only candidate.
\<close>

text \<open>The lookahead \<^verbatim>\<open>\d+\.\s\<close>, tried at the head of \<open>s\<close>.\<close>

definition starts_numbered :: "string \<Rightarrow> bool" where
  "starts_numbered s =
     (takeWhile is_digit s \<noteq> [] \<and>
      (case dropWhile is_digit s of
         c1 # c2 # _ \<Rightarrow> c1 = CHR ''.'' \<and> is_space c2
       | _ \<Rightarrow> False))"

text \<open>
  \<^verbatim>\<open>re.split(r'(?m)^(?=\d+\.\s)', s)\<close>: the pattern matches the empty string at every
  line start (the start of \<open>s\<close>, or just after a \<^verbatim>\<open>\n\<close>) where the lookahead holds, and
  \<open>s\<close> is cut at each such place, also at position 0, which leaves an empty first part.
  \<open>bol\<close> says that the position is a line start, \<open>cur\<close> is the part being read.
\<close>

fun split_from :: "bool \<Rightarrow> string \<Rightarrow> string \<Rightarrow> string list" where
  "split_from bol cur [] = [cur]"
| "split_from bol cur (c # cs) =
     (if bol \<and> starts_numbered (c # cs) then cur # split_from (c = NL) [c] cs
      else split_from (c = NL) (cur @ [c]) cs)"

definition re_split_numbered :: "string \<Rightarrow> string list" where
  "re_split_numbered s = split_from True [] s"

text \<open>
  \<^verbatim>\<open>re.sub(r'^\d+\.\s*', '', l)\<close>: without the multiline flag \<^verbatim>\<open>^\<close> matches at position
  0 only, so at most one match is removed.
\<close>

definition strip_number :: "string \<Rightarrow> string" where
  "strip_number l =
     (if takeWhile is_digit l \<noteq> [] then
        (case dropWhile is_digit l of
           c # r \<Rightarrow> if c = CHR ''.'' then dropWhile is_space r else l
         | [] \<Rightarrow> l)
      else l)"

text \<open>
  \<^verbatim>\<open>opt_pat.match(l)\<close> for \<^verbatim>\<open>^([a-dA-D])[\.\)]\s+(.*)$\<close>: the two groups of the match,
  or \<open>None\<close>. \<^verbatim>\<open>.\<close> matches everything but \<^verbatim>\<open>\n\<close>, and \<^verbatim>\<open>$\<close> matches at the end or
  just before a final \<^verbatim>\<open>\n\<close>.
\<close>

definition opt_pat_match :: "string \<Rightarrow> (char \<times> string) option" where
  "opt_pat_match l =
     (case l of
        c # d # r \<Rightarrow>
          (let rest = dropWhile is_space r;
               body = (if rest \<noteq> [] \<and> last rest = NL then butlast rest else rest)
           in if c \<in> set ''abcdABCD'' \<and> d \<in> set ''.)'' \<and> takeWhile is_space r \<noteq> [] \<and>
                 NL \<notin> set body
              then Some (c, body) else None)
      | _ \<Rightarrow> None)"

text \<open>
  \<^verbatim>\<open>re.search(r'answer:\s*([a-dA-D])\b', l, re.IGNORECASE)\<close>: \<open>answer_at\<close> tries the
  pattern at the head of the string, \<open>answer_search\<close> tries every position from the left
  and returns group 1 of the first match.
\<close>

definition answer_at :: "string \<Rightarrow> char option" where
  "answer_at s =
     (if py_lower (take 7 s) = ''answer:'' then
        (case dropWhile is_space (drop 7 s) of
           c # r \<Rightarrow>
             if c \<in> set ''abcdABCD'' \<and> (case r of [] \<Rightarrow> True | e # _ \<Rightarrow> \<not> is_word e)
             then Some c else None
         | [] \<Rightarrow> None)
      else None)"

fun answer_search :: "string \<Rightarrow> char option" where
  "answer_search [] = None"
| "answer_search (c # cs) =
     (case answer_at (c # cs) of
        Some x \<Rightarrow> Some x
      | None \<Rightarrow> answer_search cs)"

section \<open>\<open>parse_mcqs\<close>\<close>

record mcq =
  question :: string
  options :: "string list"
  answer :: string

text \<open>
  The body of the loop over \<open>lines[1:]\<close>: the string a line adds to \<open>options_raw\<close>,
  \<^verbatim>\<open>f"{letter}) {text_only}"\<close>, or \<open>None\<close> when \<open>opt_pat\<close> does not match it.
\<close>

definition option_of_line :: "string \<Rightarrow> string option" where
  "option_of_line l =
     (case opt_pat_match l of
        Some (g1, g2) \<Rightarrow> Some (lower_char g1 # '') '' @ py_strip g2)
      | None \<Rightarrow> None)"

text \<open>The loop itself; \<open>options_raw\<close> is the list so far.\<close>

fun collect_options :: "string list \<Rightarrow> string list \<Rightarrow> string list" where
  "collect_options options_raw [] = options_raw"
| "collect_options options_raw (l # ls) =
     (case option_of_line l of
        Some opt \<Rightarrow> collect_options (options_raw @ [opt]) ls
      | None \<Rightarrow> collect_options options_raw ls)"

text \<open>The loop over \<open>lines\<close> that looks for the answer and breaks at the first match.\<close>

fun find_answer :: "string list \<Rightarrow> string" where
  "find_answer [] = []"
| "find_answer (l # ls) =
     (case answer_search l of
        Some g1 \<Rightarrow> [lower_char g1]
      | None \<Rightarrow> find_answer ls)"

definition block_lines :: "string \<Rightarrow> string list" where
  "block_lines block = map py_strip (filter (\<lambda>l. py_strip l \<noteq> []) (splitlines block))"

text \<open>One pass of the loop body: what a part of the split contributes to \<open>out\<close>.\<close>

definition parse_block :: "string \<Rightarrow> mcq option" where
  "parse_block part =
     (let block = py_strip part in
      if block = [] then None
      else
        (case block_lines block of
           [] \<Rightarrow> None
         | l0 # ls \<Rightarrow>
             (let q_line = strip_number l0;
                  options_raw = collect_options [] ls;
                  ans = find_answer (l0 # ls)
              in if q_line \<noteq> [] \<and> options_raw \<noteq> []
                 then Some \<lparr>question = q_line, options = take 4 options_raw, answer = ans\<rparr>
                 else None)))"

fun parse_parts :: "mcq list \<Rightarrow> string list \<Rightarrow> mcq list" where
  "parse_parts out [] = out"
| "parse_parts out (part # parts) =
     (case parse_block part of
        Some r \<Rightarrow> parse_parts (out @ [r]) parts
      | None \<Rightarrow> parse_parts out parts)"

definition parse_mcqs :: "string \<Rightarrow> mcq list" where
  "parse_mcqs text = parse_parts [] (re_split_numbered (py_strip text))"

section \<open>The two line patterns in the words of the specification\<close>

text \<open>
  These two predicates are not taken from the code. They say what the specification
  says a line must look like, so that the functions above can be compared with it.
  \<open>option_pattern l c t\<close>: the line \<open>l\<close> is the letter \<open>c\<close> (a to d, either case), then
  \<^verbatim>\<open>.\<close> or \<^verbatim>\<open>)\<close>, then whitespace, then the text \<open>t\<close>, which starts where the whitespace
  ends. \<open>answer_pattern l u c\<close>: after its first characters \<open>u\<close> the line \<open>l\<close> goes on
  with \<^verbatim>\<open>answer:\<close> in any mix of cases, optional whitespace and the letter \<open>c\<close> (a to d,
  either case) as a whole word, that is followed by the end of the line or by a
  character that is not a word character.
\<close>

definition option_pattern :: "string \<Rightarrow> char \<Rightarrow> string \<Rightarrow> bool" where
  "option_pattern l c t =
     (\<exists>d ws. l = c # d # ws @ t \<and> c \<in> set ''abcdABCD'' \<and> d \<in> set ''.)'' \<and>
        ws \<noteq> [] \<and> list_all is_space ws \<and> t \<noteq> [] \<and> \<not> is_space (hd t))"

definition answer_pattern :: "string \<Rightarrow> string \<Rightarrow> char \<Rightarrow> bool" where
  "answer_pattern l u c =
     (\<exists>a ws v. l = u @ a @ ws @ c # v \<and> py_lower a = ''answer:'' \<and> list_all is_space ws \<and>
        c \<in> set ''abcdABCD'' \<and> (case v of [] \<Rightarrow> True | e # _ \<Rightarrow> \<not> is_word e))"

section \<open>The history of runs\<close>

text \<open>
  A history entry is the dictionary \<open>add_to_history\<close> builds. Python's integers are
  unbounded, so ids are \<open>int\<close>. The field \<open>id\<close> is \<open>h_id\<close> here, and the other fields
  carry the same prefix.
\<close>

record history_record =
  h_id :: int
  h_ts :: string
  h_topic :: string
  h_num :: int
  h_response :: string

section \<open>The session state\<close>

text \<open>
  \<open>st.session_state\<close> holds the six keys the script sets by name and the keys
  \<^verbatim>\<open>sel_<qid>\<close> and \<^verbatim>\<open>rev_<qid>\<close> that \<open>render_mcq_interactive\<close> builds. The named keys are
  the fields of \<open>session\<close>; every other key lives in \<open>keyed\<close>, a dictionary kept as an
  association list in insertion order. \<open>history_file\<close> is the content of
  \<^verbatim>\<open>quiz_history.json\<close>, \<open>None\<close> while the file does not exist.
\<close>

datatype sval = SStr string | SBool bool

type_synonym dict = "(string \<times> sval) list"

datatype message = HumanMessage string | AIMessage string

record session =
  history :: "history_record list"
  messages :: "message list"
  current_blocks :: "mcq list"
  current_raw :: string
  current_topic :: string
  current_num :: int
  keyed :: dict
  history_file :: "history_record list option"

definition dict_get :: "dict \<Rightarrow> string \<Rightarrow> sval option" where
  "dict_get ss k = map_of ss k"

fun dict_set :: "dict \<Rightarrow> string \<Rightarrow> sval \<Rightarrow> dict" where
  "dict_set [] k v = [(k, v)]"
| "dict_set ((k', v') # ss) k v =
     (if k' = k then (k, v) # ss else (k', v') # dict_set ss k v)"

text \<open>\<^verbatim>\<open>d.pop(k, None)\<close>: the key is removed when present, nothing happens otherwise.\<close>

definition dict_pop :: "string \<Rightarrow> dict \<Rightarrow> dict" where
  "dict_pop k ss = filter (\<lambda>kv. fst kv \<noteq> k) ss"

text \<open>Python's truth value of \<^verbatim>\<open>st.session_state.get(key)\<close>.\<close>

definition truthy :: "sval option \<Rightarrow> bool" where
  "truthy v = (case v of None \<Rightarrow> False | Some (SStr s) \<Rightarrow> s \<noteq> [] | Some (SBool b) \<Rightarrow> b)"

text \<open>\<^verbatim>\<open>f"{n}"\<close> for a non-negative integer: its decimal digits.\<close>

fun str_nat :: "nat \<Rightarrow> string" where
  "str_nat n =
     (if n < 10 then [char_of (48 + n)]
      else str_nat (n div 10) @ [char_of (48 + n mod 10)])"

declare str_nat.simps [simp del]

definition sel_key :: "nat \<Rightarrow> string" where
  "sel_key qid = ''sel_'' @ str_nat qid"

definition rev_key :: "nat \<Rightarrow> string" where
  "rev_key qid = ''rev_'' @ str_nat qid"

definition startswith :: "string \<Rightarrow> string \<Rightarrow> bool" where
  "startswith k p = (take (length p) k = p)"

subsection \<open>\<open>save_history\<close>, \<open>add_to_history\<close>, the Delete and Clear All buttons\<close>

definition save_history :: "history_record list \<Rightarrow> session \<Rightarrow> session" where
  "save_history items s = s\<lparr>history_file := Some items\<rparr>"

text \<open>
  \<open>now\<close> is what \<^verbatim>\<open>datetime.now().strftime("%Y-%m-%d %H:%M")\<close> returns at the call.
  \<open>items\<close> is the list object of the session itself, so appending to it changes
  \<open>history\<close>.
\<close>

definition add_to_history :: "string \<Rightarrow> string \<Rightarrow> int \<Rightarrow> string \<Rightarrow> session \<Rightarrow> session" where
  "add_to_history now topic num response s =
     (let items = history s;
          new_id = (if items \<noteq> [] then h_id (last items) + 1 else 1);
          items' = items @ [\<lparr>h_id = new_id, h_ts = now, h_topic = topic, h_num = num,
                             h_response = response\<rparr>]
      in save_history items' (s\<lparr>history := items'\<rparr>))"

text \<open>The Delete button of the history entry whose id is \<open>i\<close>.\<close>

definition delete_by_id :: "int \<Rightarrow> session \<Rightarrow> session" where
  "delete_by_id i s =
     (let items' = filter (\<lambda>x. h_id x \<noteq> i) (history s)
      in save_history items' (s\<lparr>history := items'\<rparr>))"

definition clear_all :: "session \<Rightarrow> session" where
  "clear_all s = save_history [] (s\<lparr>history := []\<rparr>)"

datatype history_op = Append string string int string | DeleteById int | ClearAll

fun apply_history_op :: "history_op \<Rightarrow> session \<Rightarrow> session" where
  "apply_history_op (Append now topic num response) s = add_to_history now topic num response s"
| "apply_history_op (DeleteById i) s = delete_by_id i s"
| "apply_history_op ClearAll s = clear_all s"

definition run_history_ops :: "history_op list \<Rightarrow> session \<Rightarrow> session" where
  "run_history_ops ops s = fold apply_history_op ops s"

subsection \<open>\<open>clear_selection_state\<close>\<close>

definition clear_selection_state :: "nat \<Rightarrow> dict \<Rightarrow> dict" where
  "clear_selection_state max_q ss =
     (let to_delete = filter (\<lambda>k. startswith k ''sel_'' \<or> startswith k ''rev_'') (map fst ss)
      in fold dict_pop to_delete ss)"

section \<open>\<open>render_mcq_interactive\<close>\<close>

text \<open>
  What a run of the script shows is a list of elements. \<open>Tile css opt\<close> is the call
  \<^verbatim>\<open>st.markdown(f'<div class="option-tile {css}">{opt}</div>', unsafe_allow_html=True)\<close>,
  \<open>Button label key\<close> a button. A run is started by at most one click; \<open>click\<close> is the key
  of the clicked button, and \<^verbatim>\<open>st.button(label, key=k)\<close> is true exactly when
  \<open>click = Some k\<close>. \<^verbatim>\<open>st.rerun()\<close> ends the run: the third component of a result says
  that it was called, and nothing after it is shown.
\<close>

datatype ui = Markdown string | Button string string | Tile string string | Info string | Divider

text \<open>\<^verbatim>\<open>opt.split(')')[0].strip().lower()\<close>\<close>

definition option_letter :: "string \<Rightarrow> string" where
  "option_letter opt = py_lower (py_strip (takeWhile (\<lambda>c. c \<noteq> CHR '')'') opt))"

text \<open>The loop of the initial state: one button per option, until one of them is the click.\<close>

fun option_buttons :: "nat \<Rightarrow> string option \<Rightarrow> dict \<Rightarrow> string list \<Rightarrow> ui list \<times> dict \<times> bool" where
  "option_buttons qid click ss [] = ([], ss, False)"
| "option_buttons qid click ss (opt # opts) =
     (let letter = option_letter opt;
          key = ''optbtn-'' @ str_nat qid @ ''-'' @ letter
      in if click = Some key then ([Button opt key], dict_set ss (sel_key qid) (SStr letter), True)
         else (case option_buttons qid click ss opts of
                 (shown, ss', rerun) \<Rightarrow> (Button opt key # shown, ss', rerun)))"

text \<open>The class of one tile, as the second loop of \<open>render_mcq_interactive\<close> chooses it.\<close>

definition tile_css :: "sval option \<Rightarrow> sval option \<Rightarrow> string \<Rightarrow> string \<Rightarrow> string" where
  "tile_css chosen revealed correct_letter letter =
     (if truthy revealed then
        (if letter = correct_letter then ''option-correct''
         else if truthy chosen \<and> Some (SStr letter) = chosen \<and> chosen \<noteq> Some (SStr correct_letter)
           then ''option-wrong''
         else ''option-neutral'')
      else
        (if chosen = Some (SStr letter) then
           (if letter = correct_letter then ''option-correct'' else ''option-wrong'')
         else ''option-neutral''))"

definition render_mcq_interactive ::
  "nat \<Rightarrow> string \<Rightarrow> string list \<Rightarrow> string \<Rightarrow> string option \<Rightarrow> dict \<Rightarrow> ui list \<times> dict \<times> bool" where
  "render_mcq_interactive qid question_text opts correct_letter click ss =
     (let head = Markdown (''**Q'' @ str_nat (qid + 1) @ ''. '' @ question_text @ ''**'');
          chosen = dict_get ss (sel_key qid);
          revealed = dict_get ss (rev_key qid)
      in
      if \<not> truthy chosen \<and> \<not> truthy revealed then
        (case option_buttons qid click ss opts of
           (shown, ss', True) \<Rightarrow> (head # shown, ss', True)
         | (shown, ss', False) \<Rightarrow>
             (let show_answer = Button ''Show answer'' (''reveal-'' @ str_nat qid)
              in if click = Some (''reveal-'' @ str_nat qid)
                 then (head # shown @ [show_answer], dict_set ss' (rev_key qid) (SBool True), True)
                 else (head # shown @ [show_answer], ss', False)))
      else
        (let tiles = map (\<lambda>opt. Tile (tile_css chosen revealed correct_letter (option_letter opt)) opt)
                         opts;
             change = Button ''Change selection'' (''reset-'' @ str_nat qid);
             show_answer = Button ''Show answer'' (''reveal2-'' @ str_nat qid)
         in
         if truthy revealed then
           (head # tiles @ [Info (''Answer: **'' @ correct_letter @ '')**'')], ss, False)
         else if click = Some (''reset-'' @ str_nat qid) then
           (head # tiles @ [change], dict_pop (sel_key qid) ss, True)
         else if click = Some (''reveal2-'' @ str_nat qid) then
           (head # tiles @ [change, show_answer], dict_set ss (rev_key qid) (SBool True), True)
         else (head # tiles @ [change, show_answer], ss, False)))"

text \<open>
  The loop \<^verbatim>\<open>for i, b in enumerate(blocks)\<close> of the Generate tab, from index \<open>i\<close> on.
\<close>

fun render_blocks :: "nat \<Rightarrow> string option \<Rightarrow> mcq list \<Rightarrow> dict \<Rightarrow> ui list \<times> dict \<times> bool" where
  "render_blocks i click [] ss = ([], ss, False)"
| "render_blocks i click (b # bs) ss =
     (case render_mcq_interactive i (question b) (options b) (answer b) click ss of
        (shown, ss', True) \<Rightarrow> (shown, ss', True)
      | (shown, ss', False) \<Rightarrow>
          (case render_blocks (Suc i) click bs ss' of
             (shown2, ss2, rerun) \<Rightarrow> (shown @ Divider # shown2, ss2, rerun)))"

section \<open>The actions of the script\<close>

text \<open>
  \<open>llm\<close> is the model client: \<open>None\<close> when \<open>get_llm\<close> finds no key, otherwise the function
  that \<^verbatim>\<open>(mcq_prompt | llm | StrOutputParser()).invoke\<close> computes, which returns the raw
  text or raises. What an action does besides changing the session is its list of
  effects, in order.
\<close>

datatype error = ModelClientError

datatype effect = ShowError string | ShowWarning string | Invoke string int | Toast string | Rerun

type_synonym model_client = "string \<Rightarrow> int \<Rightarrow> error + string"

text \<open>The body of \<^verbatim>\<open>if run:\<close>, for the topic and the number in the two input fields.\<close>

definition generate_action ::
  "model_client option \<Rightarrow> string \<Rightarrow> string \<Rightarrow> int \<Rightarrow> session \<Rightarrow> error + (session \<times> effect list)" where
  "generate_action llm now topic num_questions s =
     (case llm of
        None \<Rightarrow> Inr (s, [ShowError ''Service not ready: missing API key (developer setup).''])
      | Some invoke \<Rightarrow>
          if py_strip topic = [] then Inr (s, [ShowWarning ''Enter a topic.''])
          else
            (case invoke (py_strip topic) num_questions of
               Inl e \<Rightarrow> Inl e
             | Inr raw \<Rightarrow>
                 (let blocks = parse_mcqs raw;
                      s1 = s\<lparr>current_blocks := blocks, current_raw := raw,
                             current_topic := topic, current_num := num_questions\<rparr>;
                      s2 = s1\<lparr>keyed := clear_selection_state (length blocks) (keyed s1)\<rparr>;
                      s3 = s2\<lparr>messages := messages s2 @
                             [HumanMessage (''Topic: '' @ topic @ '', Questions: '' @
                                (if 0 \<le> num_questions then str_nat (nat num_questions)
                                 else CHR ''-'' # str_nat (nat (- num_questions)))),
                              AIMessage raw]\<rparr>;
                      s4 = add_to_history now topic num_questions raw s3
                  in Inr (s4, [Invoke (py_strip topic) num_questions, Rerun]))))"

text \<open>The button \<^verbatim>\<open>Load this set\<close> of the history entry \<open>h\<close>.\<close>

definition load_action :: "history_record \<Rightarrow> session \<Rightarrow> session \<times> effect list" where
  "load_action h s =
     (let s1 = s\<lparr>current_blocks := parse_mcqs (h_response h), current_raw := h_response h,
                 current_topic := h_topic h, current_num := h_num h\<rparr>;
          s2 = s1\<lparr>keyed := clear_selection_state (length (current_blocks s1)) (keyed s1)\<rparr>
      in (s2, [Toast ''Loaded into Generate tab.'', Rerun]))"

text \<open>
  One run of the script, started by one user action. A click on a button of the
  question tiles is \<open>Click key\<close>; it reaches \<open>render_blocks\<close> over the current set.
\<close>

datatype action =
    GenerateMCQs string string int
  | Click string
  | LoadThisSet history_record
  | Delete int
  | ClearAllHistory

fun step :: "model_client option \<Rightarrow> action \<Rightarrow> session \<Rightarrow> error + session" where
  "step llm (GenerateMCQs now topic num_questions) s =
     (case generate_action llm now topic num_questions s of
        Inl e \<Rightarrow> Inl e
      | Inr (s', _) \<Rightarrow> Inr s')"
| "step llm (Click key) s =
     (case render_blocks 0 (Some key) (current_blocks s) (keyed s) of
        (_, ss', _) \<Rightarrow> Inr (s\<lparr>keyed := ss'\<rparr>))"
| "step llm (LoadThisSet h) s = Inr (fst (load_action h s))"
| "step llm (Delete i) s = Inr (delete_by_id i s)"
| "step llm ClearAllHistory s = Inr (clear_all s)"

text \<open>
  The session defaults at the start of the script: \<open>load_history\<close> returns the content
  of the file, or the empty list when there is none or it cannot be read (\<open>None\<close>).
\<close>

definition load_history :: "history_record list option \<Rightarrow> history_record list" where
  "load_history file = (case file of None \<Rightarrow> [] | Some items \<Rightarrow> items)"

definition initial_session :: "history_record list option \<Rightarrow> session" where
  "initial_session file =
     \<lparr>history = load_history file, messages = [], current_blocks = [], current_raw = [],
      current_topic = [], current_num = 0, keyed = [], history_file = file\<rparr>"

text \<open>
  The actions that reach the code replacing the displayed set: Load, and Generate when
  there is a client and the topic is not blank.
\<close>

fun replaces_set :: "model_client option \<Rightarrow> action \<Rightarrow> bool" where
  "replaces_set llm (GenerateMCQs now topic num_questions) = (llm \<noteq> None \<and> py_strip topic \<noteq> [])"
| "replaces_set llm (LoadThisSet h) = True"
| "replaces_set llm (Click key) = False"
| "replaces_set llm (Delete i) = False"
| "replaces_set llm ClearAllHistory = False"

section \<open>Properties of the parser\<close>

lemma parse_parts_acc: "parse_parts out parts = out @ List.map_filter parse_block parts"
  by (induction parts arbitrary: out) (auto simp: List.map_filter_simps split: option.splits)

lemmas char_eval = char_of_def bit_0

lemma collect_options_acc:
  "collect_options acc ls = acc @ List.map_filter option_of_line ls"
  by (induction ls arbitrary: acc) (auto simp: List.map_filter_simps split: option.splits)

lemma parse_mcqs_map_filter:
  "parse_mcqs T = List.map_filter parse_block (re_split_numbered (py_strip T))"
  by (simp add: parse_mcqs_def parse_parts_acc)

lemma in_parse_mcqs:
  "r \<in> set (parse_mcqs T) \<Longrightarrow> \<exists>part. part \<in> set (re_split_numbered (py_strip T)) \<and> parse_block part = Some r"
  by (auto simp: parse_mcqs_map_filter List.map_filter_def)

lemma parse_block_SomeD:
  assumes "parse_block part = Some r"
  obtains l0 ls where "block_lines (py_strip part) = l0 # ls"
    and "question r = strip_number l0" and "strip_number l0 \<noteq> []"
    and "options r = take 4 (collect_options [] ls)" and "collect_options [] ls \<noteq> []"
    and "answer r = find_answer (l0 # ls)"
  using assms
  by (auto simp: parse_block_def Let_def split: if_splits list.splits)

lemma lower_letter_cases:
  "c \<in> set ''abcdABCD'' \<Longrightarrow> lower_char c \<in> set ''abcd''"
  by (auto simp: lower_char_def char_eval)

lemma option_letter_formatted:
  assumes "c \<in> set ''abcd''"
  shows "option_letter (c # '') '' @ t) = [c]"
proof -
  from assms have "c \<noteq> CHR '')''" "\<not> is_space c" "lower_char c = c"
    by (auto simp: is_space_def lower_char_def)
  then show ?thesis
    by (simp add: option_letter_def py_strip_def py_lower_def)
qed

lemma option_of_line_letter:
  assumes "option_of_line l = Some opt"
  shows "option_letter opt \<in> {''a'', ''b'', ''c'', ''d''}"
proof -
  from assms obtain g1 g2 where m: "opt_pat_match l = Some (g1, g2)"
    and o: "opt = lower_char g1 # '') '' @ py_strip g2"
    by (auto simp: option_of_line_def split: option.splits)
  from m have "g1 \<in> set ''abcdABCD''"
    by (auto simp: opt_pat_match_def Let_def split: list.splits if_splits)
  then have "lower_char g1 \<in> set ''abcd''" by (rule lower_letter_cases)
  then have "option_letter opt = [lower_char g1]" unfolding o by (rule option_letter_formatted)
  with \<open>lower_char g1 \<in> set ''abcd''\<close> show ?thesis by auto
qed

lemma parse_block_option_letters:
  assumes "parse_block part = Some r" and "opt \<in> set (options r)"
  shows "option_letter opt \<in> {''a'', ''b'', ''c'', ''d''}"
proof -
  from assms(1) obtain l0 ls where "options r = take 4 (collect_options [] ls)"
    by (rule parse_block_SomeD)
  with assms(2) have "opt \<in> set (List.map_filter option_of_line ls)"
    by (auto simp: collect_options_acc dest: in_set_takeD)
  then obtain l where "option_of_line l = Some opt"
    by (auto simp: List.map_filter_def)
  then show ?thesis by (rule option_of_line_letter)
qed

lemma find_answer_none:
  "\<forall>l \<in> set ls. answer_search l = None \<Longrightarrow> find_answer ls = []"
  by (induction ls) auto

lemma find_answer_first:
  "\<forall>l \<in> set pre. answer_search l = None \<Longrightarrow> answer_search l = Some c \<Longrightarrow>
   find_answer (pre @ l # post) = [lower_char c]"
  by (induction pre) auto

subsection \<open>The lines of a block\<close>

lemma splitlines_from_break:
  "is_linebreak c \<Longrightarrow> set (splitlines_from cur (c # cs)) \<subseteq>
     {cur} \<union> set (splitlines_from [] cs) \<union> set (splitlines_from [] (tl cs))"
  by (cases cs) auto

lemma splitlines_from_no_break:
  "\<forall>x \<in> set cur. \<not> is_linebreak x \<Longrightarrow> l \<in> set (splitlines_from cur s) \<Longrightarrow>
   \<forall>x \<in> set l. \<not> is_linebreak x"
proof (induction s arbitrary: cur rule: length_induct)
  case (1 s)
  note IH = "1.IH" and clean = "1.prems"(1) and mem = "1.prems"(2)
  have nil: "\<forall>x \<in> set ([] :: string). \<not> is_linebreak x" by simp
  show ?case
  proof (cases s)
    case Nil
    with mem have "l = cur" by (simp split: if_splits)
    with clean show ?thesis by simp
  next
    case s: (Cons c cs)
    show ?thesis
    proof (cases "is_linebreak c")
      case False
      with clean have a: "\<forall>x \<in> set (cur @ [c]). \<not> is_linebreak x" by simp
      from mem s False have b: "l \<in> set (splitlines_from (cur @ [c]) cs)" by simp
      have "length cs < length s" by (simp add: s)
      with IH a b show ?thesis by blast
    next
      case True
      from splitlines_from_break[OF True, of cur cs] mem s
      have "l = cur \<or> l \<in> set (splitlines_from [] cs) \<or> l \<in> set (splitlines_from [] (tl cs))"
        by blast
      then show ?thesis
      proof (elim disjE)
        assume "l = cur"
        with clean show ?thesis by simp
      next
        assume m: "l \<in> set (splitlines_from [] cs)"
        have "length cs < length s" by (simp add: s)
        with IH nil m show ?thesis by blast
      next
        assume m: "l \<in> set (splitlines_from [] (tl cs))"
        have "length (tl cs) < length s" by (simp add: s)
        with IH nil m show ?thesis by blast
      qed
    qed
  qed
qed

lemma py_strip_subset: "set (py_strip s) \<subseteq> set s"
proof
  fix x assume "x \<in> set (py_strip s)"
  then have "x \<in> set (dropWhile is_space (rev (dropWhile is_space s)))"
    by (simp add: py_strip_def)
  then have "x \<in> set (rev (dropWhile is_space s))" by (rule set_dropWhileD)
  then have "x \<in> set (dropWhile is_space s)" by simp
  then show "x \<in> set s" by (rule set_dropWhileD)
qed

lemma py_strip_ends:
  assumes "py_strip s \<noteq> []"
  shows "\<not> is_space (hd (py_strip s))" and "\<not> is_space (last (py_strip s))"
proof -
  define t where "t = dropWhile is_space s"
  define u where "u = dropWhile is_space (rev t)"
  have p: "py_strip s = rev u" by (simp add: py_strip_def t_def u_def)
  with assms have u: "u \<noteq> []" by simp
  then have "\<not> is_space (hd u)" unfolding u_def by (rule hd_dropWhile)
  with u show "\<not> is_space (last (py_strip s))" by (simp add: p last_rev)
  have t: "t \<noteq> []"
  proof
    assume "t = []"
    then have "u = []" by (simp add: u_def)
    with u show False by simp
  qed
  have "takeWhile is_space (rev t) @ u = rev t"
    unfolding u_def by (rule takeWhile_dropWhile_id)
  then have "rev (takeWhile is_space (rev t) @ u) = rev (rev t)" by (rule arg_cong)
  then have "t = rev u @ rev (takeWhile is_space (rev t))" by (simp only: rev_append rev_rev_ident)
  then have "hd t = hd (rev u @ rev (takeWhile is_space (rev t)))" by (rule arg_cong)
  with u have "hd t = hd (rev u)" by simp
  moreover from t have "\<not> is_space (hd t)" unfolding t_def by (rule hd_dropWhile)
  ultimately show "\<not> is_space (hd (py_strip s))" by (simp add: p)
qed

lemma dropWhile_head: "xs \<noteq> [] \<Longrightarrow> \<not> P (hd xs) \<Longrightarrow> dropWhile P xs = xs"
  by (cases xs) auto

lemma py_strip_id:
  assumes "t \<noteq> []" and "\<not> is_space (hd t)" and "\<not> is_space (last t)"
  shows "py_strip t = t"
proof -
  from assms(1,2) have a: "dropWhile is_space t = t" by (rule dropWhile_head)
  from assms(1) have "rev t \<noteq> []" by simp
  moreover from assms(1,3) have "\<not> is_space (hd (rev t))" by (simp add: hd_rev)
  ultimately have "dropWhile is_space (rev t) = rev t" by (rule dropWhile_head)
  with a show ?thesis by (simp add: py_strip_def)
qed

lemma block_line_props:
  assumes "l \<in> set (block_lines b)"
  shows "l \<noteq> []" and "\<not> is_space (hd l)" and "\<not> is_space (last l)" and "NL \<notin> set l"
proof -
  from assms obtain l0 where l0: "l0 \<in> set (splitlines b)" "py_strip l0 \<noteq> []" "l = py_strip l0"
    by (auto simp: block_lines_def)
  then show "l \<noteq> []" by simp
  from l0 show "\<not> is_space (hd l)" "\<not> is_space (last l)" by (simp_all add: py_strip_ends)
  have nil: "\<forall>x \<in> set ([] :: string). \<not> is_linebreak x" by simp
  from l0(1) have "l0 \<in> set (splitlines_from [] b)" by (simp add: splitlines_def)
  with nil have nb: "\<forall>x \<in> set l0. \<not> is_linebreak x" by (rule splitlines_from_no_break)
  have "is_linebreak NL" by (simp add: is_linebreak_def)
  with nb have "NL \<notin> set l0" by blast
  moreover have "set l \<subseteq> set l0" unfolding l0(3) by (rule py_strip_subset)
  ultimately show "NL \<notin> set l" by blast
qed

subsection \<open>The functions for the two patterns and the patterns in words\<close>

lemma letters_not_space: "c \<in> set ''abcdABCD'' \<Longrightarrow> \<not> is_space c"
  by (auto simp: is_space_def)

lemma takeWhile_stop: "t = [] \<or> \<not> P (hd t) \<Longrightarrow> takeWhile P t = []"
  by (cases t) auto

lemma dropWhile_stop: "t = [] \<or> \<not> P (hd t) \<Longrightarrow> dropWhile P t = t"
  by (cases t) auto

lemma takeWhile_run: "list_all P ws \<Longrightarrow> t = [] \<or> \<not> P (hd t) \<Longrightarrow> takeWhile P (ws @ t) = ws"
  by (induction ws) (simp_all add: takeWhile_stop)

lemma dropWhile_run: "list_all P ws \<Longrightarrow> t = [] \<or> \<not> P (hd t) \<Longrightarrow> dropWhile P (ws @ t) = t"
  by (induction ws) (simp_all add: dropWhile_stop)

lemma option_of_line_pattern:
  assumes "l \<in> set (block_lines b)"
  shows "(option_of_line l = Some opt) =
         (\<exists>c t. option_pattern l c t \<and> opt = lower_char c # '') '' @ t)"
proof
  note p = block_line_props[OF assms]
  assume "option_of_line l = Some opt"
  then obtain c d r where l: "l = c # d # r"
    and c: "c \<in> set ''abcdABCD''" and d: "d \<in> set ''.)''"
    and ws: "takeWhile is_space r \<noteq> []"
    and o: "opt = lower_char c # '') '' @
              py_strip (if dropWhile is_space r \<noteq> [] \<and> last (dropWhile is_space r) = NL
                        then butlast (dropWhile is_space r) else dropWhile is_space r)"
    by (auto simp: option_of_line_def opt_pat_match_def Let_def
             split: option.splits list.splits if_splits)
  define w where "w = takeWhile is_space r"
  define t where "t = dropWhile is_space r"
  have r: "r = w @ t" by (simp add: w_def t_def)
  have w: "w \<noteq> []" "list_all is_space w"
    using ws by (auto simp: w_def list_all_iff dest: set_takeWhileD)
  from w have rn: "r \<noteq> []" by (simp add: r)
  have t: "t \<noteq> []"
  proof
    assume "t = []"
    with r w have "is_space (last r)" by (simp add: list_all_iff)
    moreover from rn have "last l = last r" by (simp add: l)
    ultimately show False using p(3) by simp
  qed
  then have ht: "\<not> is_space (hd t)" unfolding t_def by (rule hd_dropWhile)
  from t have "last l = last t" by (simp add: l r)
  with p(3) have lt: "\<not> is_space (last t)" by simp
  from p(4) t have "last t \<noteq> NL" by (auto simp: l r dest: last_in_set)
  with o have "opt = lower_char c # '') '' @ py_strip t" by (simp add: t_def)
  with t ht lt have "opt = lower_char c # '') '' @ t" by (simp add: py_strip_id)
  moreover from l r c d w t ht have "option_pattern l c t"
    by (auto simp: option_pattern_def)
  ultimately show "\<exists>c t. option_pattern l c t \<and> opt = lower_char c # '') '' @ t" by blast
next
  note p = block_line_props[OF assms]
  assume "\<exists>c t. option_pattern l c t \<and> opt = lower_char c # '') '' @ t"
  then obtain c d w t where l: "l = c # d # w @ t"
    and c: "c \<in> set ''abcdABCD''" and d: "d \<in> set ''.)''"
    and w: "w \<noteq> []" "list_all is_space w" and t: "t \<noteq> []" "\<not> is_space (hd t)"
    and o: "opt = lower_char c # '') '' @ t"
    by (auto simp: option_pattern_def)
  from w(2) t(2) have tw: "takeWhile is_space (w @ t) = w" by (simp add: takeWhile_run)
  from w(2) t(2) have dw: "dropWhile is_space (w @ t) = t" by (simp add: dropWhile_run)
  from t have "last l = last t" by (simp add: l)
  with p(3) have lt: "\<not> is_space (last t)" by simp
  from p(4) have nl: "NL \<notin> set t" by (simp add: l)
  with t have "last t \<noteq> NL" by (auto dest: last_in_set)
  with c d w t tw dw nl have "opt_pat_match l = Some (c, t)"
    by (simp add: opt_pat_match_def l Let_def)
  with t lt o show "option_of_line l = Some opt"
    by (simp add: option_of_line_def py_strip_id)
qed

lemma py_lower_length: "length (py_lower a) = length a"
  by (simp add: py_lower_def)

lemma answer_at_pattern: "(answer_at s = Some c) = answer_pattern s [] c"
proof
  assume a: "answer_at s = Some c"
  then have lo: "py_lower (take 7 s) = ''answer:''"
    by (auto simp: answer_at_def split: if_splits)
  from a obtain v where dv: "dropWhile is_space (drop 7 s) = c # v"
    and c: "c \<in> set ''abcdABCD''" and v: "case v of [] \<Rightarrow> True | e # _ \<Rightarrow> \<not> is_word e"
    by (auto simp: answer_at_def split: if_splits list.splits)
  define w where "w = takeWhile is_space (drop 7 s)"
  have "drop 7 s = w @ c # v" unfolding w_def dv[symmetric] by simp
  then have "s = take 7 s @ w @ c # v" by (metis append_take_drop_id)
  moreover have "list_all is_space w" by (auto simp: w_def list_all_iff dest: set_takeWhileD)
  ultimately show "answer_pattern s [] c"
    unfolding answer_pattern_def using lo c v by auto
next
  assume "answer_pattern s [] c"
  then obtain a w v where s: "s = a @ w @ c # v" and lo: "py_lower a = ''answer:''"
    and w: "list_all is_space w" and c: "c \<in> set ''abcdABCD''"
    and v: "case v of [] \<Rightarrow> True | e # _ \<Rightarrow> \<not> is_word e"
    by (auto simp: answer_pattern_def)
  from lo have "length a = 7" using py_lower_length[of a] by simp
  then have ta: "take 7 s = a" "drop 7 s = w @ c # v" by (simp_all add: s)
  from c have "\<not> is_space c" by (rule letters_not_space)
  with w have "dropWhile is_space (w @ c # v) = c # v" by (simp add: dropWhile_run)
  with ta lo c v show "answer_at s = Some c"
    by (simp add: answer_at_def split: list.splits)
qed

lemma answer_pattern_suffix:
  "answer_pattern l u c = (\<exists>s. l = u @ s \<and> answer_at s = Some c)"
  by (auto simp: answer_at_pattern answer_pattern_def)

lemma answer_search_None: "(answer_search l = None) = (\<forall>u s. l = u @ s \<longrightarrow> answer_at s = None)"
proof (induction l)
  case Nil
  show ?case by (simp add: answer_at_def py_lower_def)
next
  case (Cons x xs)
  show ?case
  proof
    assume a: "answer_search (x # xs) = None"
    then have h: "answer_at (x # xs) = None" and r: "answer_search xs = None"
      by (auto split: option.splits)
    show "\<forall>u s. x # xs = u @ s \<longrightarrow> answer_at s = None"
    proof (intro allI impI)
      fix u s assume e: "x # xs = u @ s"
      show "answer_at s = None"
      proof (cases u)
        case Nil
        with e h show ?thesis by simp
      next
        case (Cons y ys)
        with e have "xs = ys @ s" by simp
        with r Cons.IH show ?thesis by blast
      qed
    qed
  next
    assume a: "\<forall>u s. x # xs = u @ s \<longrightarrow> answer_at s = None"
    then have "answer_at (x # xs) = None" by (metis append_Nil)
    moreover have "\<forall>u s. xs = u @ s \<longrightarrow> answer_at s = None"
      using a by (metis append_Cons)
    ultimately show "answer_search (x # xs) = None" using Cons.IH by simp
  qed
qed

lemma answer_search_Some:
  "(answer_search l = Some c) =
   (\<exists>u s. l = u @ s \<and> answer_at s = Some c \<and>
          (\<forall>u' s'. l = u' @ s' \<and> length u' < length u \<longrightarrow> answer_at s' = None))"
proof (induction l)
  case Nil
  show ?case by (simp add: answer_at_def py_lower_def)
next
  case (Cons x xs)
  show ?case
  proof (cases "answer_at (x # xs)")
    case (Some y)
    show ?thesis
    proof
      assume "answer_search (x # xs) = Some c"
      with Some have "y = c" by simp
      with Some have "x # xs = [] @ (x # xs) \<and> answer_at (x # xs) = Some c \<and>
        (\<forall>u' s'. x # xs = u' @ s' \<and> length u' < length ([] :: string) \<longrightarrow> answer_at s' = None)"
        by simp
      then show "\<exists>u s. x # xs = u @ s \<and> answer_at s = Some c \<and>
          (\<forall>u' s'. x # xs = u' @ s' \<and> length u' < length u \<longrightarrow> answer_at s' = None)"
        by blast
    next
      assume "\<exists>u s. x # xs = u @ s \<and> answer_at s = Some c \<and>
          (\<forall>u' s'. x # xs = u' @ s' \<and> length u' < length u \<longrightarrow> answer_at s' = None)"
      then obtain u s where e: "x # xs = u @ s" and m: "answer_at s = Some c"
        and least: "\<forall>u' s'. x # xs = u' @ s' \<and> length u' < length u \<longrightarrow> answer_at s' = None"
        by blast
      have "u = []"
      proof (rule ccontr)
        assume "u \<noteq> []"
        then have "length ([] :: string) < length u" by simp
        with least[rule_format, of "[]" "x # xs"] have "answer_at (x # xs) = None" by simp
        with Some show False by simp
      qed
      with e have "s = x # xs" by simp
      with m have "answer_at (x # xs) = Some c" by simp
      then show "answer_search (x # xs) = Some c" by simp
    qed
  next
    case None
    show ?thesis
    proof
      assume "answer_search (x # xs) = Some c"
      with None have "answer_search xs = Some c" by simp
      with Cons.IH obtain u s where e: "xs = u @ s" and m: "answer_at s = Some c"
        and least: "\<forall>u' s'. xs = u' @ s' \<and> length u' < length u \<longrightarrow> answer_at s' = None"
        by blast
      have "\<forall>u' s'. x # xs = u' @ s' \<and> length u' < length (x # u) \<longrightarrow> answer_at s' = None"
      proof (intro allI impI)
        fix u' s' assume h: "x # xs = u' @ s' \<and> length u' < length (x # u)"
        show "answer_at s' = None"
        proof (cases u')
          case Nil
          with h None show ?thesis by simp
        next
          case (Cons y ys)
          with h have "xs = ys @ s'" "length ys < length u" by simp_all
          with least show ?thesis by blast
        qed
      qed
      moreover from e have "x # xs = (x # u) @ s" by simp
      ultimately show "\<exists>u s. x # xs = u @ s \<and> answer_at s = Some c \<and>
          (\<forall>u' s'. x # xs = u' @ s' \<and> length u' < length u \<longrightarrow> answer_at s' = None)"
        using m by blast
    next
      assume "\<exists>u s. x # xs = u @ s \<and> answer_at s = Some c \<and>
          (\<forall>u' s'. x # xs = u' @ s' \<and> length u' < length u \<longrightarrow> answer_at s' = None)"
      then obtain u s where e: "x # xs = u @ s" and m: "answer_at s = Some c"
        and least: "\<forall>u' s'. x # xs = u' @ s' \<and> length u' < length u \<longrightarrow> answer_at s' = None"
        by blast
      from e m None obtain ys where u: "u = x # ys" and e': "xs = ys @ s"
        by (cases u) auto
      have "\<forall>u' s'. xs = u' @ s' \<and> length u' < length ys \<longrightarrow> answer_at s' = None"
      proof (intro allI impI)
        fix u' s' assume h: "xs = u' @ s' \<and> length u' < length ys"
        then have "x # xs = (x # u') @ s' \<and> length (x # u') < length u" by (simp add: u)
        with least show "answer_at s' = None" by blast
      qed
      with e' m Cons.IH have "answer_search xs = Some c" by blast
      with None show "answer_search (x # xs) = Some c" by simp
    qed
  qed
qed

lemma answer_search_no_pattern:
  "(answer_search l = None) = (\<forall>u c. \<not> answer_pattern l u c)"
proof
  assume "answer_search l = None"
  then show "\<forall>u c. \<not> answer_pattern l u c"
    by (simp add: answer_search_None answer_pattern_suffix)
next
  assume n: "\<forall>u c. \<not> answer_pattern l u c"
  have "\<forall>u s. l = u @ s \<longrightarrow> answer_at s = None"
  proof (intro allI impI)
    fix u s assume e: "l = u @ s"
    show "answer_at s = None"
    proof (cases "answer_at s")
      case None
      then show ?thesis .
    next
      case (Some c)
      with e have "answer_pattern l u c" by (auto simp: answer_pattern_suffix)
      with n show ?thesis by blast
    qed
  qed
  then show "answer_search l = None" by (simp add: answer_search_None)
qed

lemma answer_search_leftmost:
  assumes "answer_pattern l u c"
    and "\<forall>u' c'. answer_pattern l u' c' \<longrightarrow> length u \<le> length u'"
  shows "answer_search l = Some c"
proof -
  from assms(1) obtain s where s: "l = u @ s" "answer_at s = Some c"
    by (auto simp: answer_pattern_suffix)
  have "\<forall>u' s'. l = u' @ s' \<and> length u' < length u \<longrightarrow> answer_at s' = None"
  proof (intro allI impI)
    fix u' s' assume h: "l = u' @ s' \<and> length u' < length u"
    show "answer_at s' = None"
    proof (cases "answer_at s'")
      case None
      then show ?thesis .
    next
      case (Some c')
      with h have "answer_pattern l u' c'" by (auto simp: answer_pattern_suffix)
      with assms(2) have "length u \<le> length u'" by blast
      with h show ?thesis by simp
    qed
  qed
  with s show ?thesis unfolding answer_search_Some by blast
qed

text \<open>The equations that evaluate the parser on a concrete text.\<close>

lemmas parser_eval = parse_mcqs_def py_strip_def is_space_def re_split_numbered_def
  starts_numbered_def is_digit_def parse_block_def block_lines_def splitlines_def
  is_linebreak_def strip_number_def opt_pat_match_def option_of_line_def answer_at_def
  py_lower_def lower_char_def is_word_def option_letter_def char_eval List.map_filter_simps

subsection \<open>The shape of the records\<close>

text \<open>
  Claim C1, as the code has it. Every record that \<open>parse_mcqs\<close> returns has a non-empty
  question text and between one and four options, and the letter of each option (read
  the way \<open>render_mcq_interactive\<close> reads it) is one of a, b, c, d. The letters need not
  differ from one another: nothing in the loop compares a letter with the earlier ones.
\<close>

theorem parse_records_shape:
  "\<forall>r \<in> set (parse_mcqs T).
     question r \<noteq> [] \<and> 1 \<le> length (options r) \<and> length (options r) \<le> 4 \<and>
     (\<forall>opt \<in> set (options r). option_letter opt \<in> {''a'', ''b'', ''c'', ''d''})"
proof
  fix r assume "r \<in> set (parse_mcqs T)"
  then obtain part where p: "parse_block part = Some r"
    by (blast dest: in_parse_mcqs)
  from p obtain l0 ls where q: "question r = strip_number l0" "strip_number l0 \<noteq> []"
    and o: "options r = take 4 (collect_options [] ls)" "collect_options [] ls \<noteq> []"
    by (rule parse_block_SomeD)
  from o have "1 \<le> length (options r)" "length (options r) \<le> 4"
    by (cases "collect_options [] ls"; simp)+
  with q p show "question r \<noteq> [] \<and> 1 \<le> length (options r) \<and> length (options r) \<le> 4 \<and>
     (\<forall>opt \<in> set (options r). option_letter opt \<in> {''a'', ''b'', ''c'', ''d''})"
    by (auto dest: parse_block_option_letters)
qed

text \<open>The theorem at a text with one question, two options and an answer line.\<close>

theorem parse_records_shape_witness:
  "parse_mcqs (''1. Q'' @ [NL] @ ''a) x'' @ [NL] @ ''B.  y'' @ [NL] @ ''Answer: b'') =
     [\<lparr>question = ''Q'', options = [''a) x'', ''b) y''], answer = ''b''\<rparr>] \<and>
   ''Q'' \<noteq> [] \<and> 1 \<le> length [''a) x'', ''b) y''] \<and> length [''a) x'', ''b) y''] \<le> 4 \<and>
   option_letter ''a) x'' \<in> {''a'', ''b'', ''c'', ''d''} \<and>
   option_letter ''b) y'' \<in> {''a'', ''b'', ''c'', ''d''}"
proof -
  have e: "parse_mcqs (''1. Q'' @ [NL] @ ''a) x'' @ [NL] @ ''B.  y'' @ [NL] @ ''Answer: b'') =
     [\<lparr>question = ''Q'', options = [''a) x'', ''b) y''], answer = ''b''\<rparr>]"
    by (simp add: parser_eval)
  from parse_records_shape[of "''1. Q'' @ [NL] @ ''a) x'' @ [NL] @ ''B.  y'' @ [NL] @ ''Answer: b''"]
  show ?thesis unfolding e by simp
qed

text \<open>
  Claim C1 as the specification states it asks for pairwise distinct letters. The text
  \<^verbatim>\<open>1. Q\<close>, \<^verbatim>\<open>a) x\<close>, \<^verbatim>\<open>a) y\<close> (three lines) yields one record whose two options both
  have the letter a.
\<close>

theorem duplicate_letters_counterexample:
  "parse_mcqs (''1. Q'' @ [NL] @ ''a) x'' @ [NL] @ ''a) y'') =
     [\<lparr>question = ''Q'', options = [''a) x'', ''a) y''], answer = []\<rparr>] \<and>
   map option_letter [''a) x'', ''a) y''] = [''a'', ''a''] \<and>
   \<not> distinct (map option_letter [''a) x'', ''a) y''])"
  by (simp add: parser_eval)

subsection \<open>The options of a block\<close>

text \<open>
  Claim C2. The records of a text are those of the parts of its split, in order, each
  part giving one record or none. The options of the record a block yields are the first four of the strings
  that the lines after the first line of the block give under \<open>option_of_line\<close>, in the
  order of the lines; no letter is compared with another, so repeated letters stay. And
  on the lines of a block \<open>option_of_line\<close> gives a string exactly for the lines of the
  option pattern: the lowercased letter, \<^verbatim>\<open>) \<close> and the text. (The first line of a block
  is its question, whatever it looks like.)
\<close>

theorem first_four_options_kept:
  assumes "parse_block part = Some r"
  shows "parse_mcqs T = List.map_filter parse_block (re_split_numbered (py_strip T)) \<and>
         options r = take 4 (List.map_filter option_of_line (tl (block_lines (py_strip part)))) \<and>
         (\<forall>l \<in> set (block_lines (py_strip part)). \<forall>opt.
            (option_of_line l = Some opt) =
            (\<exists>c t. option_pattern l c t \<and> opt = lower_char c # '') '' @ t))"
proof (intro conjI)
  show "parse_mcqs T = List.map_filter parse_block (re_split_numbered (py_strip T))"
    by (rule parse_mcqs_map_filter)
  from assms show "options r =
      take 4 (List.map_filter option_of_line (tl (block_lines (py_strip part))))"
    by (auto simp: collect_options_acc elim!: parse_block_SomeD)
  show "\<forall>l \<in> set (block_lines (py_strip part)). \<forall>opt.
            (option_of_line l = Some opt) =
            (\<exists>c t. option_pattern l c t \<and> opt = lower_char c # '') '' @ t)"
    by (intro ballI allI) (rule option_of_line_pattern)
qed

text \<open>
  The block of the claim, with six option lines lettered a, b, c, d, a, B; the last one
  is written with a capital letter, a full stop and two blanks.
\<close>

theorem first_four_options_kept_witness:
  "parse_block (''1. Q'' @ [NL] @ ''a) 1'' @ [NL] @ ''b) 2'' @ [NL] @ ''c) 3'' @ [NL] @ ''d) 4''
                @ [NL] @ ''a) 5'' @ [NL] @ ''B.  6'') =
     Some \<lparr>question = ''Q'', options = [''a) 1'', ''b) 2'', ''c) 3'', ''d) 4''], answer = []\<rparr> \<and>
   block_lines (py_strip (''1. Q'' @ [NL] @ ''a) 1'' @ [NL] @ ''b) 2'' @ [NL] @ ''c) 3'' @ [NL] @ ''d) 4''
                @ [NL] @ ''a) 5'' @ [NL] @ ''B.  6'')) =
     [''1. Q'', ''a) 1'', ''b) 2'', ''c) 3'', ''d) 4'', ''a) 5'', ''B.  6''] \<and>
   List.map_filter option_of_line [''a) 1'', ''b) 2'', ''c) 3'', ''d) 4'', ''a) 5'', ''B.  6''] =
     [''a) 1'', ''b) 2'', ''c) 3'', ''d) 4'', ''a) 5'', ''b) 6''] \<and>
   [''a) 1'', ''b) 2'', ''c) 3'', ''d) 4''] =
     take 4 [''a) 1'', ''b) 2'', ''c) 3'', ''d) 4'', ''a) 5'', ''b) 6''] \<and>
   option_pattern ''B.  6'' (CHR ''B'') ''6'' \<and>
   option_of_line ''B.  6'' = Some (lower_char (CHR ''B'') # '') '' @ ''6'') \<and>
   option_of_line ''1. Q'' = None"
proof -
  let ?part = "''1. Q'' @ [NL] @ ''a) 1'' @ [NL] @ ''b) 2'' @ [NL] @ ''c) 3'' @ [NL] @ ''d) 4''
                @ [NL] @ ''a) 5'' @ [NL] @ ''B.  6''"
  let ?r = "\<lparr>question = ''Q'', options = [''a) 1'', ''b) 2'', ''c) 3'', ''d) 4''], answer = []\<rparr>"
  have p: "parse_block ?part = Some ?r"
    by (simp add: parser_eval)
  have b: "block_lines (py_strip ?part) =
     [''1. Q'', ''a) 1'', ''b) 2'', ''c) 3'', ''d) 4'', ''a) 5'', ''B.  6'']"
    by (simp add: parser_eval)
  have l: "List.map_filter option_of_line [''a) 1'', ''b) 2'', ''c) 3'', ''d) 4'', ''a) 5'', ''B.  6''] =
     [''a) 1'', ''b) 2'', ''c) 3'', ''d) 4'', ''a) 5'', ''b) 6'']"
    "option_of_line ''1. Q'' = None"
    by (simp_all add: parser_eval)
  have pat: "option_pattern ''B.  6'' (CHR ''B'') ''6''"
    unfolding option_pattern_def
    by (intro exI[of _ "CHR ''.''"] exI[of _ "''  ''"]) (simp add: is_space_def)
  note t = first_four_options_kept[OF p]
  from t b have o: "options ?r = take 4 (List.map_filter option_of_line
      [''a) 1'', ''b) 2'', ''c) 3'', ''d) 4'', ''a) 5'', ''B.  6''])" by simp
  have m: "''B.  6'' \<in> set (block_lines (py_strip ?part))" unfolding b by simp
  from t[THEN conjunct2, THEN conjunct2, rule_format, OF m,
         of "lower_char (CHR ''B'') # '') '' @ ''6''"] pat
  have "option_of_line ''B.  6'' = Some (lower_char (CHR ''B'') # '') '' @ ''6'')" by blast
  with p b l o pat show ?thesis by simp
qed

subsection \<open>The answer of a block\<close>

text \<open>
  Claim C3. The records of a text are those of the parts of its split. The lines of a
  block are scanned in order, the first line included. When no
  line has the answer pattern anywhere, the answer of the record is the empty string.
  Otherwise take the first line that has it, and in that line the leftmost place where
  it stands: the answer is the lowercased letter found there, whatever stands later in
  the line or in the lines after it.
\<close>

theorem answer_from_first_matching_line:
  assumes "parse_block part = Some r"
  shows "parse_mcqs T = List.map_filter parse_block (re_split_numbered (py_strip T)) \<and>
         ((\<forall>l \<in> set (block_lines (py_strip part)). \<forall>u c. \<not> answer_pattern l u c)
            \<longrightarrow> answer r = []) \<and>
         (\<forall>pre l post u c.
            block_lines (py_strip part) = pre @ l # post \<and>
            (\<forall>l' \<in> set pre. \<forall>u' c'. \<not> answer_pattern l' u' c') \<and>
            answer_pattern l u c \<and>
            (\<forall>u' c'. answer_pattern l u' c' \<longrightarrow> length u \<le> length u')
            \<longrightarrow> answer r = [lower_char c])"
proof -
  from assms obtain l0 ls where "block_lines (py_strip part) = l0 # ls"
    and "answer r = find_answer (l0 # ls)"
    by (rule parse_block_SomeD)
  then have a: "answer r = find_answer (block_lines (py_strip part))" by simp
  show ?thesis unfolding a
  proof (intro conjI impI allI)
    show "parse_mcqs T = List.map_filter parse_block (re_split_numbered (py_strip T))"
      by (rule parse_mcqs_map_filter)
  next
    assume "\<forall>l \<in> set (block_lines (py_strip part)). \<forall>u c. \<not> answer_pattern l u c"
    then have "\<forall>l \<in> set (block_lines (py_strip part)). answer_search l = None"
      by (simp add: answer_search_no_pattern)
    then show "find_answer (block_lines (py_strip part)) = []" by (rule find_answer_none)
  next
    fix pre l post u c
    assume h: "block_lines (py_strip part) = pre @ l # post \<and>
            (\<forall>l' \<in> set pre. \<forall>u' c'. \<not> answer_pattern l' u' c') \<and>
            answer_pattern l u c \<and>
            (\<forall>u' c'. answer_pattern l u' c' \<longrightarrow> length u \<le> length u')"
    then have n: "\<forall>l' \<in> set pre. answer_search l' = None"
      by (simp add: answer_search_no_pattern)
    from h have "answer_search l = Some c" by (blast intro: answer_search_leftmost)
    with n have "find_answer (pre @ l # post) = [lower_char c]" by (rule find_answer_first)
    with h show "find_answer (block_lines (py_strip part)) = [lower_char c]" by simp
  qed
qed

text \<open>
  Three blocks. In the first the third line is the first with the pattern, letter C, and
  the line \<^verbatim>\<open>answer: a\<close> after it is ignored. In the second the question line itself has
  the pattern. In the third no line has it: the letter e is outside a to d, and in
  \<^verbatim>\<open>Answer: ab\<close> the letter is not a whole word.
\<close>

theorem answer_from_first_matching_line_witness:
  "parse_block (''1. Q'' @ [NL] @ ''a) x'' @ [NL] @ ''Answer:  C'' @ [NL] @ ''answer: a'') =
     Some \<lparr>question = ''Q'', options = [''a) x''], answer = ''c''\<rparr> \<and>
   block_lines (py_strip (''1. Q'' @ [NL] @ ''a) x'' @ [NL] @ ''Answer:  C'' @ [NL] @ ''answer: a'')) =
     [''1. Q'', ''a) x''] @ ''Answer:  C'' # [''answer: a''] \<and>
   answer_search ''1. Q'' = None \<and> answer_search ''a) x'' = None \<and>
   answer_pattern ''Answer:  C'' [] (CHR ''C'') \<and>
   answer_pattern ''answer: a'' [] (CHR ''a'') \<and>
   [lower_char (CHR ''C'')] = ''c'' \<and>
   parse_block (''Answer: B?'' @ [NL] @ ''a) x'') =
     Some \<lparr>question = ''Answer: B?'', options = [''a) x''], answer = ''b''\<rparr> \<and>
   answer_pattern ''Answer: B?'' [] (CHR ''B'') \<and>
   parse_block (''1. Q'' @ [NL] @ ''a) x'' @ [NL] @ ''answer: e'' @ [NL] @ ''Answer: ab'') =
     Some \<lparr>question = ''Q'', options = [''a) x''], answer = []\<rparr> \<and>
   map answer_search
     (block_lines (py_strip (''1. Q'' @ [NL] @ ''a) x'' @ [NL] @ ''answer: e'' @ [NL] @ ''Answer: ab''))) =
     [None, None, None, None]"
proof -
  let ?p1 = "''1. Q'' @ [NL] @ ''a) x'' @ [NL] @ ''Answer:  C'' @ [NL] @ ''answer: a''"
  let ?r1 = "\<lparr>question = ''Q'', options = [''a) x''], answer = ''c''\<rparr>"
  let ?p2 = "''1. Q'' @ [NL] @ ''a) x'' @ [NL] @ ''answer: e'' @ [NL] @ ''Answer: ab''"
  let ?r2 = "\<lparr>question = ''Q'', options = [''a) x''], answer = []\<rparr>"
  let ?p3 = "''Answer: B?'' @ [NL] @ ''a) x''"
  let ?r3 = "\<lparr>question = ''Answer: B?'', options = [''a) x''], answer = ''b''\<rparr>"
  have p1: "parse_block ?p1 = Some ?r1" by (simp add: parser_eval)
  have l1: "block_lines (py_strip ?p1) = [''1. Q'', ''a) x''] @ ''Answer:  C'' # [''answer: a'']"
    by (simp add: parser_eval)
  have n1: "answer_search ''1. Q'' = None" "answer_search ''a) x'' = None"
    by (simp_all add: parser_eval)
  then have pre1: "\<forall>l' \<in> set [''1. Q'', ''a) x'']. \<forall>u' c'. \<not> answer_pattern l' u' c'"
    by (simp add: answer_search_no_pattern[symmetric])
  have a1: "answer_pattern ''Answer:  C'' [] (CHR ''C'')"
    "answer_pattern ''answer: a'' [] (CHR ''a'')" "answer_pattern ''Answer: B?'' [] (CHR ''B'')"
    by (simp_all add: answer_at_pattern[symmetric] parser_eval)
  have lc: "[lower_char (CHR ''C'')] = ''c''" "[lower_char (CHR ''B'')] = ''b''"
    by (simp_all add: parser_eval)
  have p3: "parse_block ?p3 = Some ?r3" by (simp add: parser_eval)
  have l3: "block_lines (py_strip ?p3) = [] @ ''Answer: B?'' # [''a) x'']"
    by (simp add: parser_eval)
  have p2: "parse_block ?p2 = Some ?r2" by (simp add: parser_eval)
  have l2: "map answer_search (block_lines (py_strip ?p2)) = [None, None, None, None]"
    by (simp add: parser_eval)
  have e1: "answer ?r1 = [lower_char (CHR ''C'')]"
    by (rule answer_from_first_matching_line[OF p1, THEN conjunct2, THEN conjunct2, rule_format,
          of "[''1. Q'', ''a) x'']" "''Answer:  C''" "[''answer: a'']" "[]" "CHR ''C''"])
       (use l1 pre1 a1 in simp)
  have e3: "answer ?r3 = [lower_char (CHR ''B'')]"
    by (rule answer_from_first_matching_line[OF p3, THEN conjunct2, THEN conjunct2, rule_format,
          of "[]" "''Answer: B?''" "[''a) x'']" "[]" "CHR ''B''"])
       (use l3 a1 in simp)
  have "\<forall>l \<in> set (block_lines (py_strip ?p2)). answer_search l = None"
    using l2 by (simp add: parser_eval)
  then have "\<forall>l \<in> set (block_lines (py_strip ?p2)). \<forall>u c. \<not> answer_pattern l u c"
    by (simp add: answer_search_no_pattern[symmetric])
  with answer_from_first_matching_line[OF p2, THEN conjunct2, THEN conjunct1]
  have e2: "answer ?r2 = []"
    by (rule mp)
  from p1 l1 n1 a1 lc p3 p2 l2 e1 e2 e3 show ?thesis by simp
qed

subsection \<open>The text before the first numbered line\<close>

text \<open>
  Claim C10. The text \<^verbatim>\<open>Intro\<close>, \<^verbatim>\<open>a) x\<close>, \<^verbatim>\<open>1. Q\<close>, \<^verbatim>\<open>a) y\<close> (four lines) is split
  into the two lines before the numbered line and the rest; the first part is a block
  like any other and yields a record whose question is its first line, unchanged.
\<close>

theorem preamble_forms_a_block:
  "re_split_numbered (py_strip (''Intro'' @ [NL] @ ''a) x'' @ [NL] @ ''1. Q'' @ [NL] @ ''a) y'')) =
     [''Intro'' @ [NL] @ ''a) x'' @ [NL], ''1. Q'' @ [NL] @ ''a) y''] \<and>
   parse_mcqs (''Intro'' @ [NL] @ ''a) x'' @ [NL] @ ''1. Q'' @ [NL] @ ''a) y'') =
     [\<lparr>question = ''Intro'', options = [''a) x''], answer = []\<rparr>,
      \<lparr>question = ''Q'', options = [''a) y''], answer = []\<rparr>]"
  by (simp add: parser_eval)

section \<open>Properties of the history\<close>

lemma history_add:
  "history (add_to_history now topic num response s) =
     history s @ [\<lparr>h_id = (if history s \<noteq> [] then h_id (last (history s)) + 1 else 1),
                   h_ts = now, h_topic = topic, h_num = num, h_response = response\<rparr>]"
  by (simp add: add_to_history_def save_history_def Let_def)

lemma history_delete:
  "history (delete_by_id i s) = filter (\<lambda>x. h_id x \<noteq> i) (history s)"
  by (simp add: delete_by_id_def save_history_def Let_def)

lemma history_clear: "history (clear_all s) = []"
  by (simp add: clear_all_def save_history_def)

lemma increasing_le_last:
  "sorted_wrt (<) (xs :: int list) \<Longrightarrow> x \<in> set xs \<Longrightarrow> x \<le> last xs"
  by (induction xs) (auto simp: less_imp_le)

lemma new_id_above:
  assumes "sorted_wrt (<) (map h_id (history s))" and "x \<in> set (history s)"
  shows "h_id x < h_id (last (history (add_to_history now topic num response s)))"
proof -
  from assms(2) have ne: "history s \<noteq> []" by auto
  from assms have "h_id x \<le> last (map h_id (history s))"
    by (intro increasing_le_last) auto
  with ne show ?thesis by (simp add: history_add last_map)
qed

lemma increasing_add:
  assumes "sorted_wrt (<) (map h_id (history s))"
  shows "sorted_wrt (<) (map h_id (history (add_to_history now topic num response s)))"
proof (cases "history s = []")
  case True
  then show ?thesis by (simp add: history_add)
next
  case False
  have "\<forall>x \<in> set (map h_id (history s)). x < h_id (last (history s)) + 1"
  proof
    fix x assume "x \<in> set (map h_id (history s))"
    with assms have "x \<le> last (map h_id (history s))" by (rule increasing_le_last)
    with False show "x < h_id (last (history s)) + 1" by (simp add: last_map)
  qed
  with assms False show ?thesis
    by (simp add: history_add sorted_wrt_append)
qed

lemma increasing_delete:
  assumes "sorted_wrt (<) (map h_id (history s))"
  shows "sorted_wrt (<) (map h_id (history (delete_by_id i s)))"
  using assms by (simp add: history_delete sorted_wrt_map sorted_wrt_filter)

lemma increasing_op:
  "sorted_wrt (<) (map h_id (history s)) \<Longrightarrow>
   sorted_wrt (<) (map h_id (history (apply_history_op op s)))"
  by (cases op) (simp_all add: increasing_add increasing_delete history_clear)

lemma increasing_ops:
  "sorted_wrt (<) (map h_id (history s)) \<Longrightarrow>
   sorted_wrt (<) (map h_id (history (run_history_ops ops s)))"
  unfolding run_history_ops_def
  by (induction ops arbitrary: s) (simp_all add: increasing_op)

lemma filter_other_ids_remove1:
  "distinct (map f xs) \<Longrightarrow> h \<in> set xs \<Longrightarrow> filter (\<lambda>x. f x \<noteq> f h) xs = remove1 h xs"
proof (induction xs)
  case Nil
  then show ?case by simp
next
  case (Cons x xs)
  show ?case
  proof (cases "x = h")
    case True
    from Cons.prems(1) have "\<forall>y \<in> set xs. f y \<noteq> f x" by (auto simp: image_iff)
    then have "filter (\<lambda>y. f y \<noteq> f x) xs = xs" by (simp add: filter_id_conv)
    with True show ?thesis by simp
  next
    case False
    with Cons.prems have "h \<in> set xs" "f x \<noteq> f h" by auto
    with Cons.IH Cons.prems(1) False show ?thesis by simp
  qed
qed

text \<open>The equations that evaluate the history operations on a concrete session.\<close>

lemmas session_eval = initial_session_def load_history_def run_history_ops_def add_to_history_def
  delete_by_id_def clear_all_def save_history_def Let_def

subsection \<open>Ids over sequences of operations\<close>

text \<open>
  Claim C4, as the code has it. Start from a history whose ids increase strictly along
  the list, as the empty history does. After every sequence of append, delete-by-id and
  clear-all operations the ids still increase strictly, so no two entries of the history
  share an id, and the next append assigns an id greater than every id then in the
  history. The id of a deleted entry is therefore not assigned again while an entry with
  a greater id is left; once the deleted entry was the last one, or the history was
  cleared, it is assigned again.
\<close>

theorem ids_stay_increasing:
  assumes "sorted_wrt (<) (map h_id (history s))"
  shows "sorted_wrt (<) (map h_id (history (run_history_ops ops s))) \<and>
         distinct (map h_id (history (run_history_ops ops s))) \<and>
         (\<forall>x \<in> set (history (run_history_ops ops s)).
            h_id x < h_id (last (history (add_to_history now topic num response
                                            (run_history_ops ops s)))))"
proof -
  have inc: "sorted_wrt (<) (map h_id (history (run_history_ops ops s)))"
    using assms by (rule increasing_ops)
  then have "distinct (map h_id (history (run_history_ops ops s)))"
    by (simp add: strict_sorted_iff)
  with inc show ?thesis by (auto intro: new_id_above)
qed

text \<open>Three appends and the deletion of id 2 leave the ids 1 and 3; the next id is 4.\<close>

theorem ids_stay_increasing_witness:
  "sorted_wrt (<) (map h_id (history (initial_session None))) \<and>
   map h_id (history (run_history_ops
     [Append ''t1'' ''A'' 5 ''ra'', Append ''t2'' ''B'' 5 ''rb'', Append ''t3'' ''C'' 5 ''rc'',
      DeleteById 2] (initial_session None))) = [1, 3] \<and>
   sorted_wrt (<) [1, 3 :: int] \<and> distinct [1, 3 :: int] \<and>
   h_id (last (history (add_to_history ''t4'' ''D'' 5 ''rd'' (run_history_ops
     [Append ''t1'' ''A'' 5 ''ra'', Append ''t2'' ''B'' 5 ''rb'', Append ''t3'' ''C'' 5 ''rc'',
      DeleteById 2] (initial_session None))))) = 4 \<and>
   (1 :: int) < 4 \<and> (3 :: int) < 4"
proof -
  let ?ops = "[Append ''t1'' ''A'' 5 ''ra'', Append ''t2'' ''B'' 5 ''rb'', Append ''t3'' ''C'' 5 ''rc'',
      DeleteById 2]"
  have h: "sorted_wrt (<) (map h_id (history (initial_session None)))"
    by (simp add: session_eval)
  have e: "map h_id (history (run_history_ops ?ops (initial_session None))) = [1, 3]"
    by (simp add: session_eval)
  have n: "h_id (last (history (add_to_history ''t4'' ''D'' 5 ''rd''
             (run_history_ops ?ops (initial_session None))))) = 4"
    by (simp add: session_eval)
  from ids_stay_increasing[OF h, of ?ops "''t4''" "''D''" 5 "''rd''"] h e n
  show ?thesis by simp
qed

text \<open>
  Claim C4 as the specification states it: an id once assigned is never assigned again.
  Two appends give the ids 1 and 2 (topics A and B); deleting id 2 and appending topic C
  gives the new entry the id 2 again.
\<close>

theorem deleted_id_reused_counterexample:
  "map h_id (history (run_history_ops
     [Append ''t1'' ''A'' 5 ''ra'', Append ''t2'' ''B'' 5 ''rb''] (initial_session None))) = [1, 2] \<and>
   map h_topic (history (run_history_ops
     [Append ''t1'' ''A'' 5 ''ra'', Append ''t2'' ''B'' 5 ''rb''] (initial_session None))) = [''A'', ''B''] \<and>
   map h_id (history (run_history_ops
     [Append ''t1'' ''A'' 5 ''ra'', Append ''t2'' ''B'' 5 ''rb'', DeleteById 2]
     (initial_session None))) = [1] \<and>
   map h_id (history (run_history_ops
     [Append ''t1'' ''A'' 5 ''ra'', Append ''t2'' ''B'' 5 ''rb'', DeleteById 2,
      Append ''t3'' ''C'' 5 ''rc''] (initial_session None))) = [1, 2] \<and>
   map h_topic (history (run_history_ops
     [Append ''t1'' ''A'' 5 ''ra'', Append ''t2'' ''B'' 5 ''rb'', DeleteById 2,
      Append ''t3'' ''C'' 5 ''rc''] (initial_session None))) = [''A'', ''C'']"
  by (simp add: session_eval)

subsection \<open>One append, one deletion\<close>

text \<open>
  Claim C5. An append gives the new entry the id 1 in an empty history and the id of
  the last entry plus one otherwise, and leaves the entries before it as they were.
  Deleting by id keeps exactly the entries with another id, unchanged and in their
  order; when the ids are pairwise distinct this removes the one entry with that id.
  The append after a deletion assigns the id of the last entry left plus one.
\<close>

theorem append_and_delete_ids:
  "(history s = [] \<longrightarrow> h_id (last (history (add_to_history now topic num response s))) = 1) \<and>
   (history s \<noteq> [] \<longrightarrow>
      h_id (last (history (add_to_history now topic num response s))) =
        h_id (last (history s)) + 1) \<and>
   butlast (history (add_to_history now topic num response s)) = history s \<and>
   history (delete_by_id i s) = filter (\<lambda>x. h_id x \<noteq> i) (history s) \<and>
   (distinct (map h_id (history s)) \<and> h \<in> set (history s) \<longrightarrow>
      history (delete_by_id (h_id h) s) = remove1 h (history s)) \<and>
   (history (delete_by_id i s) \<noteq> [] \<longrightarrow>
      h_id (last (history (add_to_history now topic num response (delete_by_id i s)))) =
        h_id (last (history (delete_by_id i s))) + 1)"
  by (simp add: history_add history_delete filter_other_ids_remove1)

text \<open>
  Three appends to the empty history give the ids 1, 2, 3; deleting id 2 leaves the
  entries 1 and 3 as they were, and the next append assigns 4.
\<close>

theorem append_and_delete_ids_witness:
  "history (initial_session None) = [] \<and>
   h_id (last (history (add_to_history ''t1'' ''A'' 5 ''ra'' (initial_session None)))) = 1 \<and>
   history (run_history_ops
      [Append ''t1'' ''A'' 5 ''ra'', Append ''t2'' ''B'' 5 ''rb'', Append ''t3'' ''C'' 5 ''rc'']
      (initial_session None)) =
     [\<lparr>h_id = 1, h_ts = ''t1'', h_topic = ''A'', h_num = 5, h_response = ''ra''\<rparr>,
      \<lparr>h_id = 2, h_ts = ''t2'', h_topic = ''B'', h_num = 5, h_response = ''rb''\<rparr>,
      \<lparr>h_id = 3, h_ts = ''t3'', h_topic = ''C'', h_num = 5, h_response = ''rc''\<rparr>] \<and>
   history (delete_by_id 2 (run_history_ops
      [Append ''t1'' ''A'' 5 ''ra'', Append ''t2'' ''B'' 5 ''rb'', Append ''t3'' ''C'' 5 ''rc'']
      (initial_session None))) =
     [\<lparr>h_id = 1, h_ts = ''t1'', h_topic = ''A'', h_num = 5, h_response = ''ra''\<rparr>,
      \<lparr>h_id = 3, h_ts = ''t3'', h_topic = ''C'', h_num = 5, h_response = ''rc''\<rparr>] \<and>
   h_id (last (history (add_to_history ''t4'' ''D'' 5 ''rd'' (delete_by_id 2 (run_history_ops
      [Append ''t1'' ''A'' 5 ''ra'', Append ''t2'' ''B'' 5 ''rb'', Append ''t3'' ''C'' 5 ''rc'']
      (initial_session None)))))) = 3 + 1"
proof -
  let ?s3 = "run_history_ops
      [Append ''t1'' ''A'' 5 ''ra'', Append ''t2'' ''B'' 5 ''rb'', Append ''t3'' ''C'' 5 ''rc'']
      (initial_session None)"
  let ?h2 = "\<lparr>h_id = 2, h_ts = ''t2'', h_topic = ''B'', h_num = 5, h_response = ''rb''\<rparr>"
  have e0: "history (initial_session None) = []" by (simp add: session_eval)
  have e3: "history ?s3 =
     [\<lparr>h_id = 1, h_ts = ''t1'', h_topic = ''A'', h_num = 5, h_response = ''ra''\<rparr>, ?h2,
      \<lparr>h_id = 3, h_ts = ''t3'', h_topic = ''C'', h_num = 5, h_response = ''rc''\<rparr>]"
    by (simp add: session_eval)
  note t0 = append_and_delete_ids[of "initial_session None" "''t1''" "''A''" 5 "''ra''" 2 ?h2]
  note t3 = append_and_delete_ids[of ?s3 "''t4''" "''D''" 5 "''rd''" 2 ?h2]
  from t0 e0 have a: "h_id (last (history (add_to_history ''t1'' ''A'' 5 ''ra'' (initial_session None)))) = 1"
    by simp
  from t3 e3 have d: "history (delete_by_id 2 ?s3) =
     [\<lparr>h_id = 1, h_ts = ''t1'', h_topic = ''A'', h_num = 5, h_response = ''ra''\<rparr>,
      \<lparr>h_id = 3, h_ts = ''t3'', h_topic = ''C'', h_num = 5, h_response = ''rc''\<rparr>]"
    by simp
  from t3 d have n: "h_id (last (history (add_to_history ''t4'' ''D'' 5 ''rd'' (delete_by_id 2 ?s3)))) = 3 + 1"
    by simp
  from e0 a e3 d n show ?thesis by simp
qed

section \<open>Properties of the session state and of the rendering\<close>

lemma dict_get_set: "dict_get (dict_set ss k v) k' = (if k' = k then Some v else dict_get ss k')"
  by (induction ss) (auto simp: dict_get_def)

lemma dict_get_pop: "dict_get (dict_pop k ss) k' = (if k' = k then None else dict_get ss k')"
  by (induction ss) (auto simp: dict_get_def dict_pop_def)

lemma dict_get_fold_pop:
  "dict_get (fold dict_pop ks ss) k = (if k \<in> set ks then None else dict_get ss k)"
  by (induction ks arbitrary: ss) (auto simp: dict_get_pop)

lemma dict_get_clear:
  "dict_get (clear_selection_state max_q ss) k =
     (if startswith k ''sel_'' \<or> startswith k ''rev_'' then None else dict_get ss k)"
proof (cases "k \<in> fst ` set ss")
  case True
  then show ?thesis by (auto simp: clear_selection_state_def Let_def dict_get_fold_pop)
next
  case False
  then have "dict_get ss k = None" by (simp add: dict_get_def map_of_eq_None_iff)
  then show ?thesis by (auto simp: clear_selection_state_def Let_def dict_get_fold_pop)
qed

lemma startswith_keys: "startswith (sel_key i) ''sel_''" "startswith (rev_key i) ''rev_''"
  by (simp_all add: startswith_def sel_key_def rev_key_def)

lemma sel_rev_distinct: "sel_key i \<noteq> rev_key j"
  by (simp add: sel_key_def rev_key_def)

lemma option_buttons_state:
  "option_buttons qid click ss opts = (shown, ss', rerun) \<Longrightarrow>
   (\<not> rerun \<and> ss' = ss) \<or> (\<exists>l. rerun \<and> ss' = dict_set ss (sel_key qid) (SStr l))"
  by (induction opts arbitrary: shown) (auto simp: Let_def split: if_splits prod.splits)

lemma render_state:
  assumes "render_mcq_interactive qid q opts correct click ss = (shown, ss', rerun)"
  shows "(\<not> rerun \<and> ss' = ss) \<or>
         (rerun \<and> \<not> truthy (dict_get ss (rev_key qid)) \<and>
           ((\<exists>l. ss' = dict_set ss (sel_key qid) (SStr l)) \<or>
            ss' = dict_set ss (rev_key qid) (SBool True) \<or>
            ss' = dict_pop (sel_key qid) ss))"
proof (cases "\<not> truthy (dict_get ss (sel_key qid)) \<and> \<not> truthy (dict_get ss (rev_key qid))")
  case True
  obtain sh st r where ob: "option_buttons qid click ss opts = (sh, st, r)"
    by (cases "option_buttons qid click ss opts") auto
  from option_buttons_state[OF ob] assms True ob show ?thesis
    by (auto simp: render_mcq_interactive_def Let_def split: if_splits)
next
  case False
  with assms show ?thesis
    by (auto simp: render_mcq_interactive_def Let_def split: if_splits)
qed

lemma render_keeps_revealed:
  assumes "render_mcq_interactive j q opts correct click ss = (shown, ss', rerun)"
    and "truthy (dict_get ss (rev_key qid))"
  shows "truthy (dict_get ss' (rev_key qid))"
  using render_state[OF assms(1)] assms(2)
  by (auto simp: dict_get_set dict_get_pop sel_rev_distinct[symmetric] truthy_def)

lemma render_blocks_keeps_revealed:
  "render_blocks i click bs ss = (shown, ss', rerun) \<Longrightarrow> truthy (dict_get ss (rev_key qid)) \<Longrightarrow>
   truthy (dict_get ss' (rev_key qid))"
proof (induction bs arbitrary: i ss shown ss' rerun)
  case Nil
  then show ?case by simp
next
  case (Cons b bs)
  obtain sh st r where r1: "render_mcq_interactive i (question b) (options b) (answer b) click ss = (sh, st, r)"
    by (cases "render_mcq_interactive i (question b) (options b) (answer b) click ss") auto
  from render_keeps_revealed[OF r1 Cons.prems(2)] have k: "truthy (dict_get st (rev_key qid))" .
  show ?case
  proof (cases r)
    case True
    with Cons.prems(1) r1 k show ?thesis by simp
  next
    case False
    obtain sh2 st2 r2 where r2: "render_blocks (Suc i) click bs st = (sh2, st2, r2)"
      by (cases "render_blocks (Suc i) click bs st") auto
    from Cons.IH[OF r2 k] Cons.prems(1) r1 r2 False show ?thesis by simp
  qed
qed

lemma render_revealed:
  assumes "truthy (dict_get ss (rev_key qid))"
  shows "render_mcq_interactive qid q opts correct click ss =
     (Markdown (''**Q'' @ str_nat (qid + 1) @ ''. '' @ q @ ''**'') #
      map (\<lambda>opt. Tile (tile_css (dict_get ss (sel_key qid)) (dict_get ss (rev_key qid)) correct
                         (option_letter opt)) opt) opts @
      [Info (''Answer: **'' @ correct @ '')**'')], ss, False)"
  using assms by (simp add: render_mcq_interactive_def Let_def)

lemma tile_css_no_answer:
  assumes "truthy revealed" and "letter \<noteq> []"
  shows "tile_css chosen revealed [] letter =
     (if chosen = Some (SStr letter) then ''option-wrong'' else ''option-neutral'')"
  using assms by (auto simp: tile_css_def truthy_def)

lemma step_keeps_revealed:
  assumes "step llm a s = Inr s'" and "truthy (dict_get (keyed s) (rev_key qid))"
    and "\<not> replaces_set llm a"
  shows "truthy (dict_get (keyed s') (rev_key qid))"
proof (cases a)
  case (GenerateMCQs now topic n)
  with assms show ?thesis
    by (auto simp: generate_action_def split: option.splits)
next
  case (Click key)
  obtain sh st r where rb: "render_blocks 0 (Some key) (current_blocks s) (keyed s) = (sh, st, r)"
    by (cases "render_blocks 0 (Some key) (current_blocks s) (keyed s)") auto
  from render_blocks_keeps_revealed[OF rb assms(2)] rb Click assms(1) show ?thesis by auto
next
  case (LoadThisSet h)
  with assms show ?thesis by simp
next
  case (Delete i)
  with assms show ?thesis by (auto simp: delete_by_id_def save_history_def Let_def)
next
  case ClearAllHistory
  with assms show ?thesis by (auto simp: clear_all_def save_history_def)
qed

lemma render_revealed_no_button:
  assumes "render_mcq_interactive qid q opts correct click ss = (shown, ss', rerun)"
    and "truthy (dict_get ss (rev_key qid))"
  shows "ss' = ss \<and> \<not> rerun \<and> (\<forall>label key. Button label key \<notin> set shown)"
  using assms by (auto simp: render_revealed)

lemma selection_cleared_not_revealed:
  assumes "render_mcq_interactive qid q opts correct click ss = (shown, ss', rerun)"
    and "dict_get ss (sel_key qid) \<noteq> None" and "dict_get ss' (sel_key qid) = None"
  shows "\<not> truthy (dict_get ss (rev_key qid)) \<and> ss' = dict_pop (sel_key qid) ss"
  using render_state[OF assms(1)] assms(2,3)
  by (auto simp: dict_get_set sel_rev_distinct)

text \<open>The equations that evaluate the rendering and the actions on a concrete session.\<close>

lemmas render_eval = render_mcq_interactive_def tile_css_def truthy_def dict_get_def dict_pop_def
  sel_key_def rev_key_def str_nat.simps clear_selection_state_def startswith_def
  load_action_def generate_action_def Let_def

lemmas step_eval = session_eval render_eval parser_eval

subsection \<open>A revealed question without an answer letter\<close>

text \<open>
  Claim C6, as the code has it. Let the question be revealed, its answer letter be the
  empty string, and every option have a non-empty letter (as the options of
  \<open>parse_mcqs\<close> do). Then no tile is coloured correct; the tile of the option chosen
  before revealing, when there is one, is coloured wrong, and every other tile neutral,
  so all tiles are neutral when nothing was chosen; the answer line shows an empty
  letter; no button is shown and the state stays as it is.
\<close>

theorem revealed_without_answer:
  assumes "truthy (dict_get ss (rev_key qid))"
    and "\<forall>opt \<in> set opts. option_letter opt \<noteq> []"
  shows "render_mcq_interactive qid q opts [] click ss =
     (Markdown (''**Q'' @ str_nat (qid + 1) @ ''. '' @ q @ ''**'') #
      map (\<lambda>opt. Tile (if dict_get ss (sel_key qid) = Some (SStr (option_letter opt))
                        then ''option-wrong'' else ''option-neutral'') opt) opts @
      [Info ''Answer: **)**''], ss, False)"
  using assms by (simp add: render_revealed tile_css_no_answer cong: map_cong)

text \<open>Question 3 with three options, b chosen, revealed, no answer letter.\<close>

theorem revealed_without_answer_witness:
  "truthy (dict_get [(''sel_3'', SStr ''b''), (''rev_3'', SBool True)] (rev_key 3)) \<and>
   option_letter ''a) x'' \<noteq> [] \<and> option_letter ''b) y'' \<noteq> [] \<and> option_letter ''c) z'' \<noteq> [] \<and>
   render_mcq_interactive 3 ''Q'' [''a) x'', ''b) y'', ''c) z''] [] None
       [(''sel_3'', SStr ''b''), (''rev_3'', SBool True)] =
     ([Markdown ''**Q4. Q**'', Tile ''option-neutral'' ''a) x'', Tile ''option-wrong'' ''b) y'',
       Tile ''option-neutral'' ''c) z'', Info ''Answer: **)**''],
      [(''sel_3'', SStr ''b''), (''rev_3'', SBool True)], False)"
proof -
  let ?ss = "[(''sel_3'', SStr ''b''), (''rev_3'', SBool True)]"
  have r: "truthy (dict_get ?ss (rev_key 3))"
    by (simp add: render_eval char_eval)
  have l: "option_letter ''a) x'' = ''a''" "option_letter ''b) y'' = ''b''" "option_letter ''c) z'' = ''c''"
    by (simp_all add: parser_eval)
  then have o: "\<forall>opt \<in> set [''a) x'', ''b) y'', ''c) z'']. option_letter opt \<noteq> []"
    by simp
  have k: "dict_get ?ss (sel_key 3) = Some (SStr ''b'')" "str_nat (3 + 1) = ''4''"
    by (simp_all add: render_eval char_eval)
  from revealed_without_answer[OF r o, of "''Q''" None] r l k show ?thesis
    by simp
qed

text \<open>
  Claim C6 as the specification states it: no tile is coloured wrong, even when an
  option was chosen before revealing. The text \<^verbatim>\<open>1. Q\<close>, \<^verbatim>\<open>a) x\<close>, \<^verbatim>\<open>b) y\<close> has no
  answer line. Choosing a and then revealing leads to a rendering whose tile for a is
  coloured wrong.
\<close>

theorem chosen_option_wrong_counterexample:
  "parse_mcqs (''1. Q'' @ [NL] @ ''a) x'' @ [NL] @ ''b) y'') =
     [\<lparr>question = ''Q'', options = [''a) x'', ''b) y''], answer = []\<rparr>] \<and>
   render_mcq_interactive 0 ''Q'' [''a) x'', ''b) y''] [] (Some ''optbtn-0-a'') [] =
     ([Markdown ''**Q1. Q**'', Button ''a) x'' ''optbtn-0-a''], [(''sel_0'', SStr ''a'')], True) \<and>
   render_mcq_interactive 0 ''Q'' [''a) x'', ''b) y''] [] (Some ''reveal2-0'')
       [(''sel_0'', SStr ''a'')] =
     ([Markdown ''**Q1. Q**'', Tile ''option-wrong'' ''a) x'', Tile ''option-neutral'' ''b) y'',
       Button ''Change selection'' ''reset-0'', Button ''Show answer'' ''reveal2-0''],
      [(''sel_0'', SStr ''a''), (''rev_0'', SBool True)], True) \<and>
   render_mcq_interactive 0 ''Q'' [''a) x'', ''b) y''] [] None
       [(''sel_0'', SStr ''a''), (''rev_0'', SBool True)] =
     ([Markdown ''**Q1. Q**'', Tile ''option-wrong'' ''a) x'', Tile ''option-neutral'' ''b) y'',
       Info ''Answer: **)**''],
      [(''sel_0'', SStr ''a''), (''rev_0'', SBool True)], False)"
  by (simp add: parser_eval render_eval)

subsection \<open>Revealing is kept until the set is replaced\<close>

text \<open>
  Claim C7, as the code has it. Once a question index is revealed, every action that
  does not replace the displayed set keeps it revealed: a click on any button of any
  question, a Generate that is refused, a deletion from the history and clearing the
  history. While a question is revealed its rendering shows no button at all, so no
  Change selection, and no click changes the state. A rendering that removes the chosen
  letter of a question starts from a state in which the question is not revealed.
  (Replacing the displayed set does remove the reveal state; this is claim C8.)
\<close>

theorem reveal_kept_unless_set_replaced:
  "(step llm a s = Inr s' \<and> truthy (dict_get (keyed s) (rev_key qid)) \<and> \<not> replaces_set llm a
      \<longrightarrow> truthy (dict_get (keyed s') (rev_key qid))) \<and>
   (render_mcq_interactive qid q opts correct click ss = (shown, ss', rerun) \<and>
    truthy (dict_get ss (rev_key qid))
      \<longrightarrow> ss' = ss \<and> \<not> rerun \<and> (\<forall>label key. Button label key \<notin> set shown)) \<and>
   (render_mcq_interactive qid q opts correct click ss = (shown, ss', rerun) \<and>
    dict_get ss (sel_key qid) \<noteq> None \<and> dict_get ss' (sel_key qid) = None
      \<longrightarrow> \<not> truthy (dict_get ss (rev_key qid)) \<and> ss' = dict_pop (sel_key qid) ss)"
proof (intro conjI impI)
  assume "step llm a s = Inr s' \<and> truthy (dict_get (keyed s) (rev_key qid)) \<and> \<not> replaces_set llm a"
  then show "truthy (dict_get (keyed s') (rev_key qid))"
    by (elim conjE) (rule step_keeps_revealed)
next
  assume r: "render_mcq_interactive qid q opts correct click ss = (shown, ss', rerun) \<and>
    truthy (dict_get ss (rev_key qid))"
  then have "ss' = ss \<and> \<not> rerun \<and> (\<forall>label key. Button label key \<notin> set shown)"
    by (elim conjE) (rule render_revealed_no_button)
  then show "ss' = ss" "\<not> rerun" "\<forall>label key. Button label key \<notin> set shown"
    by simp_all
next
  assume c: "render_mcq_interactive qid q opts correct click ss = (shown, ss', rerun) \<and>
    dict_get ss (sel_key qid) \<noteq> None \<and> dict_get ss' (sel_key qid) = None"
  then have "\<not> truthy (dict_get ss (rev_key qid)) \<and> ss' = dict_pop (sel_key qid) ss"
    by (elim conjE) (rule selection_cleared_not_revealed)
  then show "\<not> truthy (dict_get ss (rev_key qid))" "ss' = dict_pop (sel_key qid) ss"
    by simp_all
qed

text \<open>
  A click on an option of question 1 while question 0 is revealed; a click with the key
  of Change selection on a revealed question, which changes nothing; the same click on
  a question that is selected and not revealed, which removes the selection.
\<close>

theorem reveal_kept_unless_set_replaced_witness:
  "step None (Click ''optbtn-1-a'')
     \<lparr>history = [], messages = [],
      current_blocks = [\<lparr>question = ''Q'', options = [''a) x''], answer = ''a''\<rparr>,
                        \<lparr>question = ''R'', options = [''a) y''], answer = ''a''\<rparr>],
      current_raw = [], current_topic = [], current_num = 2,
      keyed = [(''rev_0'', SBool True)], history_file = None\<rparr> =
   Inr \<lparr>history = [], messages = [],
      current_blocks = [\<lparr>question = ''Q'', options = [''a) x''], answer = ''a''\<rparr>,
                        \<lparr>question = ''R'', options = [''a) y''], answer = ''a''\<rparr>],
      current_raw = [], current_topic = [], current_num = 2,
      keyed = [(''rev_0'', SBool True), (''sel_1'', SStr ''a'')], history_file = None\<rparr> \<and>
   truthy (dict_get [(''rev_0'', SBool True)] (rev_key 0)) \<and>
   \<not> replaces_set None (Click ''optbtn-1-a'') \<and>
   truthy (dict_get [(''rev_0'', SBool True), (''sel_1'', SStr ''a'')] (rev_key 0)) \<and>
   render_mcq_interactive 0 ''Q'' [''a) x''] ''a'' (Some ''reset-0'')
       [(''sel_0'', SStr ''a''), (''rev_0'', SBool True)] =
     ([Markdown ''**Q1. Q**'', Tile ''option-correct'' ''a) x'', Info ''Answer: **a)**''],
      [(''sel_0'', SStr ''a''), (''rev_0'', SBool True)], False) \<and>
   truthy (dict_get [(''sel_0'', SStr ''a''), (''rev_0'', SBool True)] (rev_key 0)) \<and>
   render_mcq_interactive 0 ''Q'' [''a) x''] ''a'' (Some ''reset-0'') [(''sel_0'', SStr ''a'')] =
     ([Markdown ''**Q1. Q**'', Tile ''option-correct'' ''a) x'',
       Button ''Change selection'' ''reset-0''], [], True) \<and>
   dict_get [(''sel_0'', SStr ''a'')] (sel_key 0) \<noteq> None \<and>
   dict_get [] (sel_key 0) = None \<and>
   \<not> truthy (dict_get [(''sel_0'', SStr ''a'')] (rev_key 0))"
proof -
  let ?b = "[\<lparr>question = ''Q'', options = [''a) x''], answer = ''a''\<rparr>,
             \<lparr>question = ''R'', options = [''a) y''], answer = ''a''\<rparr>]"
  let ?s = "\<lparr>history = [], messages = [], current_blocks = ?b,
      current_raw = [], current_topic = [], current_num = 2,
      keyed = [(''rev_0'', SBool True)], history_file = None\<rparr>"
  let ?s' = "\<lparr>history = [], messages = [], current_blocks = ?b,
      current_raw = [], current_topic = [], current_num = 2,
      keyed = [(''rev_0'', SBool True), (''sel_1'', SStr ''a'')], history_file = None\<rparr>"
  have st: "step None (Click ''optbtn-1-a'') ?s = Inr ?s'"
    by (simp add: step_eval)
  have r0: "truthy (dict_get (keyed ?s) (rev_key 0))" "\<not> replaces_set None (Click ''optbtn-1-a'')"
    by (simp_all add: step_eval)
  have r1: "render_mcq_interactive 0 ''Q'' [''a) x''] ''a'' (Some ''reset-0'')
       [(''sel_0'', SStr ''a''), (''rev_0'', SBool True)] =
     ([Markdown ''**Q1. Q**'', Tile ''option-correct'' ''a) x'', Info ''Answer: **a)**''],
      [(''sel_0'', SStr ''a''), (''rev_0'', SBool True)], False)"
    "truthy (dict_get [(''sel_0'', SStr ''a''), (''rev_0'', SBool True)] (rev_key 0))"
    by (simp_all add: step_eval)
  have r2: "render_mcq_interactive 0 ''Q'' [''a) x''] ''a'' (Some ''reset-0'') [(''sel_0'', SStr ''a'')] =
     ([Markdown ''**Q1. Q**'', Tile ''option-correct'' ''a) x'',
       Button ''Change selection'' ''reset-0''], [], True)"
    "dict_get [(''sel_0'', SStr ''a'')] (sel_key 0) \<noteq> None" "dict_get [] (sel_key 0) = None"
    by (simp_all add: step_eval)
  from reveal_kept_unless_set_replaced[of None "Click ''optbtn-1-a''" ?s ?s' 0, THEN conjunct1] st r0
  have k: "truthy (dict_get (keyed ?s') (rev_key 0))" by blast
  from reveal_kept_unless_set_replaced[of None "Click ''optbtn-1-a''" ?s ?s' 0 "''Q''" "[''a) x'']" "''a''"
         "Some ''reset-0''" "[(''sel_0'', SStr ''a'')]" _ "[]" True, THEN conjunct2, THEN conjunct2] r2
  have n: "\<not> truthy (dict_get [(''sel_0'', SStr ''a'')] (rev_key 0))" by blast
  from st r0 r1 r2 k n show ?thesis by simp
qed

text \<open>
  Claim C7 as the specification states it: no later transition of the session clears
  \<open>revealed\<close>. Load a set, reveal question 0, load the set again: the second load is a
  transition of the same session and question 0 is no longer revealed.
\<close>

theorem reload_clears_reveal_counterexample:
  "step None (LoadThisSet \<lparr>h_id = 1, h_ts = ''t1'', h_topic = ''T'', h_num = 1,
                           h_response = ''1. Q'' @ [NL] @ ''a) x''\<rparr>)
     (initial_session (Some [\<lparr>h_id = 1, h_ts = ''t1'', h_topic = ''T'', h_num = 1,
                             h_response = ''1. Q'' @ [NL] @ ''a) x''\<rparr>])) =
   Inr \<lparr>history = [\<lparr>h_id = 1, h_ts = ''t1'', h_topic = ''T'', h_num = 1,
                     h_response = ''1. Q'' @ [NL] @ ''a) x''\<rparr>],
        messages = [],
        current_blocks = [\<lparr>question = ''Q'', options = [''a) x''], answer = []\<rparr>],
        current_raw = ''1. Q'' @ [NL] @ ''a) x'', current_topic = ''T'', current_num = 1,
        keyed = [],
        history_file = Some [\<lparr>h_id = 1, h_ts = ''t1'', h_topic = ''T'', h_num = 1,
                              h_response = ''1. Q'' @ [NL] @ ''a) x''\<rparr>]\<rparr> \<and>
   step None (Click ''reveal-0'')
     \<lparr>history = [\<lparr>h_id = 1, h_ts = ''t1'', h_topic = ''T'', h_num = 1,
                     h_response = ''1. Q'' @ [NL] @ ''a) x''\<rparr>],
        messages = [],
        current_blocks = [\<lparr>question = ''Q'', options = [''a) x''], answer = []\<rparr>],
        current_raw = ''1. Q'' @ [NL] @ ''a) x'', current_topic = ''T'', current_num = 1,
        keyed = [],
        history_file = Some [\<lparr>h_id = 1, h_ts = ''t1'', h_topic = ''T'', h_num = 1,
                              h_response = ''1. Q'' @ [NL] @ ''a) x''\<rparr>]\<rparr> =
   Inr \<lparr>history = [\<lparr>h_id = 1, h_ts = ''t1'', h_topic = ''T'', h_num = 1,
                     h_response = ''1. Q'' @ [NL] @ ''a) x''\<rparr>],
        messages = [],
        current_blocks = [\<lparr>question = ''Q'', options = [''a) x''], answer = []\<rparr>],
        current_raw = ''1. Q'' @ [NL] @ ''a) x'', current_topic = ''T'', current_num = 1,
        keyed = [(''rev_0'', SBool True)],
        history_file = Some [\<lparr>h_id = 1, h_ts = ''t1'', h_topic = ''T'', h_num = 1,
                              h_response = ''1. Q'' @ [NL] @ ''a) x''\<rparr>]\<rparr> \<and>
   truthy (dict_get [(''rev_0'', SBool True)] (rev_key 0)) \<and>
   step None (LoadThisSet \<lparr>h_id = 1, h_ts = ''t1'', h_topic = ''T'', h_num = 1,
                           h_response = ''1. Q'' @ [NL] @ ''a) x''\<rparr>)
     \<lparr>history = [\<lparr>h_id = 1, h_ts = ''t1'', h_topic = ''T'', h_num = 1,
                     h_response = ''1. Q'' @ [NL] @ ''a) x''\<rparr>],
        messages = [],
        current_blocks = [\<lparr>question = ''Q'', options = [''a) x''], answer = []\<rparr>],
        current_raw = ''1. Q'' @ [NL] @ ''a) x'', current_topic = ''T'', current_num = 1,
        keyed = [(''rev_0'', SBool True)],
        history_file = Some [\<lparr>h_id = 1, h_ts = ''t1'', h_topic = ''T'', h_num = 1,
                              h_response = ''1. Q'' @ [NL] @ ''a) x''\<rparr>]\<rparr> =
   Inr \<lparr>history = [\<lparr>h_id = 1, h_ts = ''t1'', h_topic = ''T'', h_num = 1,
                     h_response = ''1. Q'' @ [NL] @ ''a) x''\<rparr>],
        messages = [],
        current_blocks = [\<lparr>question = ''Q'', options = [''a) x''], answer = []\<rparr>],
        current_raw = ''1. Q'' @ [NL] @ ''a) x'', current_topic = ''T'', current_num = 1,
        keyed = [],
        history_file = Some [\<lparr>h_id = 1, h_ts = ''t1'', h_topic = ''T'', h_num = 1,
                              h_response = ''1. Q'' @ [NL] @ ''a) x''\<rparr>]\<rparr> \<and>
   \<not> truthy (dict_get [] (rev_key 0))"
  by (simp add: step_eval)

subsection \<open>Replacing the displayed set\<close>

text \<open>
  Claim C8. After a generation that reaches the model client and returns, and after
  loading a history entry, no selection and no reveal state is left for any question
  index, whatever the lengths of the old and the new set.
\<close>

theorem set_replacement_clears_state:
  "(llm = Some invoke \<and> py_strip topic \<noteq> [] \<and>
    generate_action llm now topic num_questions s = Inr (s', effects) \<longrightarrow>
      dict_get (keyed s') (sel_key i) = None \<and> dict_get (keyed s') (rev_key i) = None) \<and>
   dict_get (keyed (fst (load_action h s))) (sel_key i) = None \<and>
   dict_get (keyed (fst (load_action h s))) (rev_key i) = None"
  by (auto simp: generate_action_def load_action_def add_to_history_def save_history_def Let_def
        dict_get_clear startswith_keys split: sum.splits)

text \<open>
  A set of five questions with state for the indices 0, 2, 3 and 4 is replaced by a set
  of two questions, by a generation and by a load. Only the key that is neither a
  selection nor a reveal key is left.
\<close>

theorem set_replacement_clears_state_witness:
  "py_strip ''Trees'' \<noteq> [] \<and>
   generate_action (Some (\<lambda>topic n. Inr (''1. Q'' @ [NL] @ ''a) x'' @ [NL] @ ''2. R'' @ [NL] @ ''a) y'')))
       ''t1'' ''Trees'' 2
       \<lparr>history = [], messages = [],
        current_blocks = [\<lparr>question = ''A'', options = [''a) 1''], answer = ''a''\<rparr>,
                          \<lparr>question = ''B'', options = [''a) 2''], answer = ''a''\<rparr>,
                          \<lparr>question = ''C'', options = [''a) 3''], answer = ''a''\<rparr>,
                          \<lparr>question = ''D'', options = [''a) 4''], answer = ''a''\<rparr>,
                          \<lparr>question = ''E'', options = [''a) 5''], answer = ''a''\<rparr>],
        current_raw = [], current_topic = [], current_num = 5,
        keyed = [(''sel_0'', SStr ''a''), (''rev_2'', SBool True), (''sel_3'', SStr ''a''),
                 (''rev_3'', SBool True), (''sel_4'', SStr ''a''), (''reveal-2'', SBool True)],
        history_file = None\<rparr> =
     Inr (\<lparr>history = [\<lparr>h_id = 1, h_ts = ''t1'', h_topic = ''Trees'', h_num = 2,
                         h_response = ''1. Q'' @ [NL] @ ''a) x'' @ [NL] @ ''2. R'' @ [NL] @ ''a) y''\<rparr>],
           messages = [HumanMessage ''Topic: Trees, Questions: 2'',
                       AIMessage (''1. Q'' @ [NL] @ ''a) x'' @ [NL] @ ''2. R'' @ [NL] @ ''a) y'')],
           current_blocks = [\<lparr>question = ''Q'', options = [''a) x''], answer = []\<rparr>,
                             \<lparr>question = ''R'', options = [''a) y''], answer = []\<rparr>],
           current_raw = ''1. Q'' @ [NL] @ ''a) x'' @ [NL] @ ''2. R'' @ [NL] @ ''a) y'',
           current_topic = ''Trees'', current_num = 2,
           keyed = [(''reveal-2'', SBool True)],
           history_file = Some [\<lparr>h_id = 1, h_ts = ''t1'', h_topic = ''Trees'', h_num = 2,
                         h_response = ''1. Q'' @ [NL] @ ''a) x'' @ [NL] @ ''2. R'' @ [NL] @ ''a) y''\<rparr>]\<rparr>,
          [Invoke ''Trees'' 2, Rerun]) \<and>
   dict_get [(''sel_0'', SStr ''a''), (''rev_2'', SBool True), (''sel_3'', SStr ''a''),
             (''rev_3'', SBool True), (''sel_4'', SStr ''a''), (''reveal-2'', SBool True)]
            (sel_key 3) = Some (SStr ''a'') \<and>
   dict_get [(''reveal-2'', SBool True)] (sel_key 3) = None \<and>
   dict_get [(''reveal-2'', SBool True)] (rev_key 3) = None \<and>
   dict_get (keyed (fst (load_action
       \<lparr>h_id = 1, h_ts = ''t1'', h_topic = ''T'', h_num = 2,
        h_response = ''1. Q'' @ [NL] @ ''a) x'' @ [NL] @ ''2. R'' @ [NL] @ ''a) y''\<rparr>
       \<lparr>history = [], messages = [],
        current_blocks = [\<lparr>question = ''A'', options = [''a) 1''], answer = ''a''\<rparr>,
                          \<lparr>question = ''B'', options = [''a) 2''], answer = ''a''\<rparr>,
                          \<lparr>question = ''C'', options = [''a) 3''], answer = ''a''\<rparr>,
                          \<lparr>question = ''D'', options = [''a) 4''], answer = ''a''\<rparr>,
                          \<lparr>question = ''E'', options = [''a) 5''], answer = ''a''\<rparr>],
        current_raw = [], current_topic = [], current_num = 5,
        keyed = [(''sel_0'', SStr ''a''), (''rev_2'', SBool True), (''sel_3'', SStr ''a''),
                 (''rev_3'', SBool True), (''sel_4'', SStr ''a''), (''reveal-2'', SBool True)],
        history_file = None\<rparr>))) (rev_key 2) = None"
proof -
  let ?raw = "''1. Q'' @ [NL] @ ''a) x'' @ [NL] @ ''2. R'' @ [NL] @ ''a) y''"
  let ?inv = "\<lambda>(topic :: string) (n :: int). (Inr ?raw :: error + string)"
  let ?k = "[(''sel_0'', SStr ''a''), (''rev_2'', SBool True), (''sel_3'', SStr ''a''),
                 (''rev_3'', SBool True), (''sel_4'', SStr ''a''), (''reveal-2'', SBool True)]"
  let ?s = "\<lparr>history = [], messages = [],
        current_blocks = [\<lparr>question = ''A'', options = [''a) 1''], answer = ''a''\<rparr>,
                          \<lparr>question = ''B'', options = [''a) 2''], answer = ''a''\<rparr>,
                          \<lparr>question = ''C'', options = [''a) 3''], answer = ''a''\<rparr>,
                          \<lparr>question = ''D'', options = [''a) 4''], answer = ''a''\<rparr>,
                          \<lparr>question = ''E'', options = [''a) 5''], answer = ''a''\<rparr>],
        current_raw = [], current_topic = [], current_num = 5,
        keyed = ?k, history_file = None\<rparr>"
  let ?h1 = "\<lparr>h_id = 1, h_ts = ''t1'', h_topic = ''Trees'', h_num = 2, h_response = ?raw\<rparr>"
  let ?s' = "\<lparr>history = [?h1],
           messages = [HumanMessage ''Topic: Trees, Questions: 2'', AIMessage ?raw],
           current_blocks = [\<lparr>question = ''Q'', options = [''a) x''], answer = []\<rparr>,
                             \<lparr>question = ''R'', options = [''a) y''], answer = []\<rparr>],
           current_raw = ?raw, current_topic = ''Trees'', current_num = 2,
           keyed = [(''reveal-2'', SBool True)], history_file = Some [?h1]\<rparr>"
  have t: "py_strip ''Trees'' \<noteq> []" by (simp add: parser_eval)
  have g: "generate_action (Some ?inv) ''t1'' ''Trees'' 2 ?s = Inr (?s', [Invoke ''Trees'' 2, Rerun])"
    by (simp add: step_eval)
  have b: "dict_get ?k (sel_key 3) = Some (SStr ''a'')"
    by (simp add: step_eval)
  note c = set_replacement_clears_state[of "Some ?inv" ?inv "''Trees''" "''t1''" 2 ?s ?s'
            "[Invoke ''Trees'' 2, Rerun]" 3]
  note d = set_replacement_clears_state[of "Some ?inv" ?inv "''Trees''" "''t1''" 2 ?s ?s'
            "[Invoke ''Trees'' 2, Rerun]" 2
            "\<lparr>h_id = 1, h_ts = ''t1'', h_topic = ''T'', h_num = 2, h_response = ?raw\<rparr>"]
  from c t g have "dict_get (keyed ?s') (sel_key 3) = None \<and> dict_get (keyed ?s') (rev_key 3) = None"
    by blast
  with d t g b show ?thesis by simp
qed

subsection \<open>A refused generation\<close>

text \<open>
  Claim C9. When there is no model client (the key is missing), or the topic is empty
  or whitespace only, the Generate action shows one message, an error in the first case
  and a warning in the second, does not call the model client, returns normally and
  leaves the whole session as it was.
\<close>

theorem generate_refused:
  assumes "llm = None \<or> py_strip topic = []"
  shows "generate_action llm now topic num_questions s =
           Inr (s, [if llm = None
                    then ShowError ''Service not ready: missing API key (developer setup).''
                    else ShowWarning ''Enter a topic.'']) \<and>
         step llm (GenerateMCQs now topic num_questions) s = Inr s"
  using assms by (auto simp: generate_action_def split: option.splits)

text \<open>No client with the topic \<^verbatim>\<open>Trees\<close>; a client with a topic of a blank, a tab and a newline.\<close>

theorem generate_refused_witness:
  "py_strip ''Trees'' \<noteq> [] \<and>
   generate_action None ''t1'' ''Trees'' 5 (initial_session None) =
     Inr (initial_session None,
          [ShowError ''Service not ready: missing API key (developer setup).'']) \<and>
   py_strip ('' '' @ [CHR 0x09, NL]) = [] \<and>
   generate_action (Some (\<lambda>topic n. Inr ''1. Q'')) ''t1'' ('' '' @ [CHR 0x09, NL]) 5
       (initial_session None) =
     Inr (initial_session None, [ShowWarning ''Enter a topic.'']) \<and>
   step (Some (\<lambda>topic n. Inr ''1. Q'')) (GenerateMCQs ''t1'' ('' '' @ [CHR 0x09, NL]) 5)
       (initial_session None) = Inr (initial_session None)"
proof -
  have a: "py_strip ''Trees'' \<noteq> []" "py_strip ('' '' @ [CHR 0x09, NL]) = []"
    by (simp_all add: parser_eval)
  from generate_refused[of None "''Trees''" "''t1''" 5 "initial_session None"]
       generate_refused[of "Some (\<lambda>topic n. Inr ''1. Q'')" "'' '' @ [CHR 0x09, NL]" "''t1''" 5
                           "initial_session None"] a
  show ?thesis by simp
qed

end
